theory Spec2Isabelle
  imports Complex_Main
begin

section \<open>Data model of the tower-defense engine (game.js)\<close>

text \<open>
  JavaScript numbers are modelled as follows: quantities that the program only ever
  produces as whole numbers (money, lives, wave, cost, damage, health, reward, timestamps)
  are \<open>int\<close>; positions, speeds, ranges and rates are \<open>real\<close> (exact arithmetic, the
  rounding of IEEE doubles is not modelled). Object identity of an enemy is a stable
  number \<open>e_id\<close>, and a reference to an enemy is that number. The visual-effect ledger,
  the audio calls and the DOM updates write only data that no game rule reads, and are
  left out of the state, as are the fields that only the drawing code reads (names,
  colours, sizes, descriptions, the mouse position, \<open>unlockedTowers\<close>). The keys of the two
  template tables are datatypes: every caller passes a key of the table.
\<close>

datatype tower_kind = Basic | Cannon | Magic | Sniper | Bomber

fun kind_name :: "tower_kind \<Rightarrow> string" where
  "kind_name Basic = ''basic''"
| "kind_name Cannon = ''cannon''"
| "kind_name Magic = ''magic''"
| "kind_name Sniper = ''sniper''"
| "kind_name Bomber = ''bomber''"

text \<open>The optional \<open>special\<close> descriptor of a tower template.\<close>

datatype special =
    Critical real real    \<comment> \<open>\<open>type: 'critical'\<close>, criticalChance, criticalMultiplier\<close>
  | Explosion real real   \<comment> \<open>\<open>type: 'explosion'\<close>, radius, falloff\<close>

fun special_type :: "special \<Rightarrow> string" where
  "special_type (Critical c m) = ''critical''"
| "special_type (Explosion r f) = ''explosion''"

record tower_spec =
  s_cost :: int
  s_damage :: int
  s_range :: real
  s_fireRate :: real
  s_barrelLength :: real
  s_unlockWave :: int
  s_special :: "special option"

fun towerTypes :: "tower_kind \<Rightarrow> tower_spec" where
  "towerTypes Basic = \<lparr>s_cost = 25, s_damage = 10, s_range = 120, s_fireRate = 1,
      s_barrelLength = 10, s_unlockWave = 1, s_special = None\<rparr>"
| "towerTypes Cannon = \<lparr>s_cost = 60, s_damage = 30, s_range = 100, s_fireRate = 1/2,
      s_barrelLength = 14, s_unlockWave = 2, s_special = None\<rparr>"
| "towerTypes Magic = \<lparr>s_cost = 100, s_damage = 15, s_range = 150, s_fireRate = 3/2,
      s_barrelLength = 8, s_unlockWave = 3, s_special = None\<rparr>"
| "towerTypes Sniper = \<lparr>s_cost = 150, s_damage = 80, s_range = 250, s_fireRate = 1/4,
      s_barrelLength = 18, s_unlockWave = 5, s_special = Some (Critical (2/10) (5/2))\<rparr>"
| "towerTypes Bomber = \<lparr>s_cost = 200, s_damage = 50, s_range = 180, s_fireRate = 3/10,
      s_barrelLength = 12, s_unlockWave = 7, s_special = Some (Explosion 60 (1/2))\<rparr>"

text \<open>
  A tower instance. The fields merged in from the \<open>special\<close> descriptor are absent
  (\<open>undefined\<close>) on towers without one, hence options; \<open>criticalChance\<close> and
  \<open>criticalMultiplier\<close> are only ever written together, and so are \<open>radius\<close> and
  \<open>falloff\<close>, so each pair is one optional field.
\<close>

record tower =
  t_x :: real
  t_y :: real
  t_type :: string
  t_lastShot :: int
  t_target :: "nat option"
  t_angle :: real
  t_cost :: int
  t_damage :: int
  t_range :: real
  t_fireRate :: real
  t_barrelLength :: real
  t_unlockWave :: int
  t_special :: "special option"
  t_critical :: "(real \<times> real) option"    \<comment> \<open>criticalChance, criticalMultiplier\<close>
  t_explosion :: "(real \<times> real) option"   \<comment> \<open>radius, falloff\<close>

datatype enemy_kind = EBasic | EFast | EStrong | EBoss

record enemy =
  e_id :: nat
  e_x :: real
  e_y :: real
  e_type :: enemy_kind
  e_health :: int
  e_maxHealth :: int
  e_speed :: real
  e_reward :: int
  e_pathIndex :: nat
  e_progress :: real
  e_pulseEffect :: real
  e_pulseDirection :: real

record projectile =
  p_x :: real
  p_y :: real
  p_targetX :: real
  p_targetY :: real
  p_target :: "nat option"
  p_damage :: int
  p_speed :: real
  p_type :: string
  p_trailInterval :: nat
  p_trailCounter :: nat
  p_explosion :: "(real \<times> real) option"   \<comment> \<open>explosionRadius, falloff\<close>

text \<open>
  The closure state of the spawn interval started by \<open>startWave\<close>: how many enemies it
  has spawned, how many the wave has, and its period in milliseconds.
\<close>

record spawn_timer =
  enemiesSpawned :: int
  enemyCount :: int
  spawnInterval :: int

datatype screen = MainMenu | HowToPlay | Game

text \<open>
  \<open>gameState\<close>, extended by the timers the program has pending: the number of live
  preparation intervals, the bonus timeouts (each holding its \<open>waveBonus\<close>) and the
  wave-countdown intervals (each holding its \<open>nextWaveCountdown\<close>). \<open>nextId\<close> is the
  identity the next spawned enemy object gets.
\<close>

record state =
  money :: int
  lives :: int
  wave :: int
  isPlaying :: bool
  selectedTower :: "tower_kind option"
  towers :: "tower list"
  enemies :: "enemy list"
  projectiles :: "projectile list"
  waveTimeout :: "nat option"
  enemySpawnInterval :: "spawn_timer option"
  gameScreen :: screen
  preparationPhase :: bool
  preparationTimer :: int
  difficultyFactor :: real
  waveCompleted :: bool
  waveStarted :: bool
  prepIntervals :: nat
  bonusTimeouts :: "int list"
  countdownIntervals :: "int list"
  nextId :: nat

definition gridSize :: real where
  "gridSize = 40"

definition preparationTime :: int where
  "preparationTime = 5"

section \<open>Tower placement\<close>

text \<open>
  \<open>placeTower\<close> builds the object literal (\<open>type: towerType\<close> first, then the spread of
  the template, which has no \<open>type\<close> key), then \<open>Object.assign\<close>s the \<open>special\<close>
  descriptor into it, which has a \<open>type\<close> key of its own.
\<close>

definition tower_literal :: "real \<Rightarrow> real \<Rightarrow> tower_kind \<Rightarrow> tower" where
  "tower_literal x y towerType =
     (let towerData = towerTypes towerType in
      \<lparr>t_x = x, t_y = y, t_type = kind_name towerType, t_lastShot = 0, t_target = None,
       t_angle = 0, t_cost = s_cost towerData, t_damage = s_damage towerData,
       t_range = s_range towerData, t_fireRate = s_fireRate towerData,
       t_barrelLength = s_barrelLength towerData, t_unlockWave = s_unlockWave towerData,
       t_special = s_special towerData, t_critical = None, t_explosion = None\<rparr>)"

fun assign_special :: "tower \<Rightarrow> special \<Rightarrow> tower" where
  "assign_special t (Critical c m) =
     t\<lparr>t_type := ''critical'', t_critical := Some (c, m)\<rparr>"
| "assign_special t (Explosion r f) =
     t\<lparr>t_type := ''explosion'', t_explosion := Some (r, f)\<rparr>"

definition new_tower :: "real \<Rightarrow> real \<Rightarrow> tower_kind \<Rightarrow> tower" where
  "new_tower x y towerType =
     (let tower = tower_literal x y towerType in
      case s_special (towerTypes towerType) of
        None \<Rightarrow> tower
      | Some sp \<Rightarrow> assign_special tower sp)"

definition placeTower :: "real \<Rightarrow> real \<Rightarrow> tower_kind \<Rightarrow> state \<Rightarrow> state" where
  "placeTower x y towerType s =
     (let tower = new_tower x y towerType in
      s\<lparr>money := money s - t_cost tower, towers := towers s @ [tower]\<rparr>)"

section \<open>Combat engine\<close>

text \<open>\<open>Math.atan2(y, x)\<close>.\<close>

definition atan2 :: "real \<Rightarrow> real \<Rightarrow> real" where
  "atan2 y x =
     (if 0 < x then arctan (y / x)
      else if x < 0 then (if 0 \<le> y then arctan (y / x) + pi else arctan (y / x) - pi)
      else if 0 < y then pi / 2
      else if y < 0 then - (pi / 2)
      else 0)"

text \<open>
  \<open>defeatEnemy\<close>: the reward is granted and the enemy object is filtered out of the live
  list by identity.
\<close>

definition defeatEnemy :: "enemy \<Rightarrow> state \<Rightarrow> state" where
  "defeatEnemy enemy s =
     s\<lparr>money := money s + e_reward enemy,
       enemies := filter (\<lambda>e. e_id e \<noteq> e_id enemy) (enemies s)\<rparr>"

text \<open>\<open>enemy.health -= d\<close> on the enemy object with identity \<open>i\<close>.\<close>

definition damageEnemy :: "nat \<Rightarrow> int \<Rightarrow> enemy list \<Rightarrow> enemy list" where
  "damageEnemy i d es =
     map (\<lambda>e. if e_id e = i then e\<lparr>e_health := e_health e - d\<rparr> else e) es"

definition createStandardProjectile :: "tower \<Rightarrow> enemy \<Rightarrow> state \<Rightarrow> state" where
  "createStandardProjectile tower target s =
     (let angle = atan2 (e_y target - t_y tower) (e_x target - t_x tower);
          spawnX = t_x tower + cos angle * t_barrelLength tower;
          spawnY = t_y tower + sin angle * t_barrelLength tower
      in s\<lparr>projectiles := projectiles s @
           [\<lparr>p_x = spawnX, p_y = spawnY, p_targetX = e_x target, p_targetY = e_y target,
             p_target = Some (e_id target), p_damage = t_damage tower, p_speed = 5,
             p_type = t_type tower, p_trailInterval = 2, p_trailCounter = 0,
             p_explosion = None\<rparr>]\<rparr>)"

definition createBomberProjectile :: "tower \<Rightarrow> enemy \<Rightarrow> state \<Rightarrow> state" where
  "createBomberProjectile tower target s =
     (let angle = atan2 (e_y target - t_y tower) (e_x target - t_x tower);
          spawnX = t_x tower + cos angle * t_barrelLength tower;
          spawnY = t_y tower + sin angle * t_barrelLength tower
      in s\<lparr>projectiles := projectiles s @
           [\<lparr>p_x = spawnX, p_y = spawnY, p_targetX = e_x target, p_targetY = e_y target,
             p_target = Some (e_id target), p_damage = t_damage tower, p_speed = 4,
             p_type = ''bomber'', p_trailInterval = 3, p_trailCounter = 0,
             p_explosion = t_explosion tower\<rparr>]\<rparr>)"

text \<open>
  The rate-of-fire test \<open>now - tower.lastShot < 1000 / tower.fireRate\<close>. In JavaScript
  \<open>1000 / 0\<close> is \<open>Infinity\<close>, so a tower with fire rate 0 is always skipped.
\<close>

definition onCooldown :: "int \<Rightarrow> tower \<Rightarrow> bool" where
  "onCooldown now tower =
     (if t_fireRate tower = 0 then True
      else real_of_int (now - t_lastShot tower) < 1000 / t_fireRate tower)"

definition enemyDistance :: "tower \<Rightarrow> enemy \<Rightarrow> real" where
  "enemyDistance tower enemy =
     (let dx = e_x enemy - t_x tower; dy = e_y enemy - t_y tower
      in sqrt (dx * dx + dy * dy))"

text \<open>
  The target-acquisition scan: \<open>closestEnemy\<close> starts as \<open>null\<close>, \<open>closestDistance\<close> as
  the tower's range, and an enemy replaces the candidate only when strictly closer.
\<close>

fun scanEnemies :: "tower \<Rightarrow> enemy list \<Rightarrow> enemy option \<times> real \<Rightarrow> enemy option \<times> real" where
  "scanEnemies tower [] acc = acc"
| "scanEnemies tower (enemy # rest) (closestEnemy, closestDistance) =
     (let distance = enemyDistance tower enemy in
      if distance < closestDistance
      then scanEnemies tower rest (Some enemy, distance)
      else scanEnemies tower rest (closestEnemy, closestDistance))"

text \<open>
  One iteration of the loop of \<open>updateTowers\<close>, for the tower at index \<open>i\<close>. \<open>roll\<close> is
  the value \<open>Math.random()\<close> returns for the critical-hit roll of this iteration.
\<close>

definition towerStep :: "int \<Rightarrow> (nat \<Rightarrow> real) \<Rightarrow> nat \<Rightarrow> state \<Rightarrow> state" where
  "towerStep now roll i s =
     (let tower = towers s ! i in
      if onCooldown now tower then s
      else
        case scanEnemies tower (enemies s) (None, t_range tower) of
          (None, _) \<Rightarrow> s
        | (Some closestEnemy, closestDistance) \<Rightarrow>
            (let dx = e_x closestEnemy - t_x tower;
                 dy = e_y closestEnemy - t_y tower;
                 tower' = tower\<lparr>t_angle := atan2 dy dx, t_lastShot := now,
                                t_target := Some (e_id closestEnemy)\<rparr>;
                 s1 = s\<lparr>towers := (towers s)[i := tower']\<rparr>
             in if t_type tower' = ''sniper'' then
                  (let isCritical = (case t_critical tower' of
                                       None \<Rightarrow> False
                                     | Some (criticalChance, _) \<Rightarrow> roll i < criticalChance);
                       damage = (case t_critical tower' of
                                   Some (_, criticalMultiplier) \<Rightarrow>
                                     if isCritical
                                     then \<lfloor>real_of_int (t_damage tower') * criticalMultiplier\<rfloor>
                                     else t_damage tower'
                                 | None \<Rightarrow> t_damage tower');
                       s2 = s1\<lparr>enemies := damageEnemy (e_id closestEnemy) damage (enemies s1)\<rparr>
                   in if e_health closestEnemy - damage \<le> 0
                      then defeatEnemy closestEnemy s2
                      else s2)
                else if t_type tower' = ''bomber'' then createBomberProjectile tower' closestEnemy s1
                else createStandardProjectile tower' closestEnemy s1))"

definition updateTowers :: "int \<Rightarrow> (nat \<Rightarrow> real) \<Rightarrow> state \<Rightarrow> state" where
  "updateTowers now roll s = fold (towerStep now roll) [0..<length (towers s)] s"

section \<open>Projectiles and impact resolution\<close>

text \<open>
  \<open>gameState.enemies.includes(projectile.target)\<close>: the reference resolves when an enemy
  with that identity is in the live list.
\<close>

definition lookupEnemy :: "nat \<Rightarrow> enemy list \<Rightarrow> enemy option" where
  "lookupEnemy i es = find (\<lambda>e. e_id e = i) es"

definition liveTarget :: "projectile \<Rightarrow> state \<Rightarrow> enemy option" where
  "liveTarget projectile s =
     (case p_target projectile of
        None \<Rightarrow> None
      | Some i \<Rightarrow> lookupEnemy i (enemies s))"

text \<open>Standard impact: flat damage to the target, then the defeat check.\<close>

definition standardImpact :: "projectile \<Rightarrow> enemy \<Rightarrow> state \<Rightarrow> state" where
  "standardImpact projectile target s =
     (let s1 = s\<lparr>enemies := damageEnemy (e_id target) (p_damage projectile) (enemies s)\<rparr>
      in if e_health target - p_damage projectile \<le> 0 then defeatEnemy target s1 else s1)"

definition explosionDistance :: "projectile \<Rightarrow> enemy \<Rightarrow> real" where
  "explosionDistance projectile enemy =
     (let explosionDx = e_x enemy - p_targetX projectile;
          explosionDy = e_y enemy - p_targetY projectile
      in sqrt (explosionDx * explosionDx + explosionDy * explosionDy))"

text \<open>
  The body of the area-damage loop for one enemy of the array the loop runs over. A
  projectile without \<open>explosionRadius\<close> compares against \<open>undefined\<close>, which is false;
  with radius 0 the only distance that passes is 0, where \<open>0 / 0\<close> is \<open>NaN\<close> and no
  damage is dealt.
\<close>

definition splashStep :: "projectile \<Rightarrow> enemy \<Rightarrow> enemy \<Rightarrow> state \<Rightarrow> state" where
  "splashStep projectile target enemy s =
     (if e_id enemy = e_id target then s
      else
        case p_explosion projectile of
          None \<Rightarrow> s
        | Some (explosionRadius, falloff) \<Rightarrow>
            if explosionDistance projectile enemy \<le> explosionRadius \<and> explosionRadius \<noteq> 0 then
              (let damagePercent =
                     1 - (explosionDistance projectile enemy / explosionRadius) * falloff;
                   areaDamage = \<lfloor>real_of_int (p_damage projectile) * damagePercent\<rfloor>
               in if 0 < areaDamage then
                    (let s1 = s\<lparr>enemies := damageEnemy (e_id enemy) areaDamage (enemies s)\<rparr>
                     in if e_health enemy - areaDamage \<le> 0 then defeatEnemy enemy s1 else s1)
                  else s)
            else s)"

text \<open>
  Bomber impact: full damage to the primary target, the area loop over the enemy array
  as it is when the loop starts, then the defeat check of the primary target.
\<close>

definition bomberImpact :: "projectile \<Rightarrow> enemy \<Rightarrow> state \<Rightarrow> state" where
  "bomberImpact projectile target s =
     (let s1 = s\<lparr>enemies := damageEnemy (e_id target) (p_damage projectile) (enemies s)\<rparr>;
          s2 = fold (splashStep projectile target) (enemies s1) s1
      in if e_health target - p_damage projectile \<le> 0 then defeatEnemy target s2 else s2)"

text \<open>The trail counter of a projectile (every projectile has \<open>createTrail\<close> set).\<close>

definition trailTick :: "projectile \<Rightarrow> projectile" where
  "trailTick projectile =
     (let counter = Suc (p_trailCounter projectile)
      in projectile\<lparr>p_trailCounter :=
           (if p_trailInterval projectile \<le> counter then 0 else counter)\<rparr>)"

text \<open>Homing: while the target is live the aim point follows it.\<close>

definition track :: "projectile \<Rightarrow> state \<Rightarrow> projectile" where
  "track projectile s =
     (case liveTarget projectile s of
        Some target \<Rightarrow> projectile\<lparr>p_targetX := e_x target, p_targetY := e_y target\<rparr>
      | None \<Rightarrow> projectile)"

text \<open>One iteration of the loop of \<open>updateProjectiles\<close>, for the projectile at index \<open>i\<close>.\<close>

definition projectileStep :: "nat \<Rightarrow> state \<Rightarrow> state" where
  "projectileStep i s =
     (let projectile = track (trailTick (projectiles s ! i)) s;
          dx = p_targetX projectile - p_x projectile;
          dy = p_targetY projectile - p_y projectile;
          distance = sqrt (dx * dx + dy * dy)
      in if distance < 5 then
           (let s1 = (case liveTarget projectile s of
                        Some target \<Rightarrow>
                          if p_type projectile = ''bomber'' then bomberImpact projectile target s
                          else standardImpact projectile target s
                      | None \<Rightarrow> s)
            in s1\<lparr>projectiles := take i (projectiles s1) @ drop (Suc i) (projectiles s1)\<rparr>)
         else
           (let speed = p_speed projectile * (1 + (1/10) * (1 - distance / 300))
            in s\<lparr>projectiles := (projectiles s)
                  [i := projectile\<lparr>p_x := p_x projectile + (dx / distance) * speed,
                                  p_y := p_y projectile + (dy / distance) * speed\<rparr>]\<rparr>))"

text \<open>The loop runs from the last index down to 0.\<close>

fun projectileLoop :: "nat \<Rightarrow> state \<Rightarrow> state" where
  "projectileLoop 0 s = s"
| "projectileLoop (Suc i) s = projectileLoop i (projectileStep i s)"

definition updateProjectiles :: "state \<Rightarrow> state" where
  "updateProjectiles s = projectileLoop (length (projectiles s)) s"

section \<open>Enemy movement and breach\<close>

definition path :: "(real \<times> real) list" where
  "path = [(0, 120), (200, 120), (200, 280), (400, 280), (400, 120), (600, 120),
           (600, 400), (800, 400)]"

definition gameOver :: "state \<Rightarrow> state" where
  "gameOver s = s\<lparr>isPlaying := False\<rparr>"

text \<open>
  What one iteration of the loop of \<open>updateEnemies\<close> does to its enemy: it advances, or
  it completes the path, or \<open>path[enemy.pathIndex + 1]\<close> is \<open>undefined\<close> and reading its
  \<open>x\<close> throws a TypeError. After a segment change the position is still interpolated on
  the old segment (with progress 0).
\<close>

datatype move = Advanced enemy | Breached | OffPath

definition advance :: "enemy \<Rightarrow> move" where
  "advance enemy =
     (let pulseEffect = e_pulseEffect enemy + (1/10) * e_pulseDirection enemy;
          pulseDirection = (if 1 < pulseEffect \<or> pulseEffect < 0
                            then e_pulseDirection enemy * (- 1) else e_pulseDirection enemy)
      in if Suc (e_pathIndex enemy) < length path then
           (let currentPathPoint = path ! e_pathIndex enemy;
                nextPathPoint = path ! Suc (e_pathIndex enemy);
                dx = fst nextPathPoint - fst currentPathPoint;
                dy = snd nextPathPoint - snd currentPathPoint;
                distance = sqrt (dx * dx + dy * dy);
                progress = e_progress enemy + e_speed enemy
            in if distance \<le> progress then
                 (if length path - 1 \<le> Suc (e_pathIndex enemy) then Breached
                  else Advanced (enemy\<lparr>e_pulseEffect := pulseEffect,
                          e_pulseDirection := pulseDirection,
                          e_progress := 0, e_pathIndex := Suc (e_pathIndex enemy),
                          e_x := fst currentPathPoint + dx * (0 / distance),
                          e_y := snd currentPathPoint + dy * (0 / distance)\<rparr>))
               else Advanced (enemy\<lparr>e_pulseEffect := pulseEffect,
                          e_pulseDirection := pulseDirection,
                          e_progress := progress,
                          e_x := fst currentPathPoint + dx * (progress / distance),
                          e_y := snd currentPathPoint + dy * (progress / distance)\<rparr>))
         else OffPath)"

text \<open>
  The loop of \<open>updateEnemies\<close>, from the last index down to 0. A breach decrements
  \<open>lives\<close>, splices the enemy out, calls \<open>gameOver\<close> and returns from the function.
  \<open>None\<close> is the TypeError.
\<close>

fun enemyLoop :: "nat \<Rightarrow> state \<Rightarrow> state option" where
  "enemyLoop 0 s = Some s"
| "enemyLoop (Suc i) s =
     (case advance (enemies s ! i) of
        OffPath \<Rightarrow> None
      | Breached \<Rightarrow>
          Some (gameOver (s\<lparr>lives := lives s - 1,
                           enemies := take i (enemies s) @ drop (Suc i) (enemies s)\<rparr>))
      | Advanced enemy \<Rightarrow> enemyLoop i (s\<lparr>enemies := (enemies s)[i := enemy]\<rparr>))"

definition updateEnemies :: "state \<Rightarrow> state option" where
  "updateEnemies s = enemyLoop (length (enemies s)) s"

section \<open>Wave director and timers\<close>

record enemy_spec =
  es_health :: int
  es_speed :: real
  es_reward :: int

fun enemyTypes :: "enemy_kind \<Rightarrow> enemy_spec" where
  "enemyTypes EBasic = \<lparr>es_health = 40, es_speed = 1, es_reward = 10\<rparr>"
| "enemyTypes EFast = \<lparr>es_health = 25, es_speed = 2, es_reward = 15\<rparr>"
| "enemyTypes EStrong = \<lparr>es_health = 100, es_speed = 7/10, es_reward = 20\<rparr>"
| "enemyTypes EBoss = \<lparr>es_health = 300, es_speed = 1/2, es_reward = 50\<rparr>"

definition calculateWaveDifficulty :: "state \<Rightarrow> state" where
  "calculateWaveDifficulty s =
     (let base = 1 + real_of_int (wave s - 1) * (15/100)
      in s\<lparr>difficultyFactor :=
             (if 10 < wave s then base + log 10 (real_of_int (wave s - 9)) * (1/2) else base)\<rparr>)"

text \<open>\<open>rand\<close> is the value of \<open>Math.random()\<close>.\<close>

definition selectEnemyTypeForWave :: "int \<Rightarrow> real \<Rightarrow> enemy_kind" where
  "selectEnemyTypeForWave w rand =
     (if w mod 5 = 0 then (if rand < 3/10 then EBoss else EStrong)
      else if w \<le> 2 then EBasic
      else if w \<le> 4 then (if rand < 7/10 then EBasic else EFast)
      else if w \<le> 7 then
        (if rand < 5/10 then EBasic else if rand < 8/10 then EFast else EStrong)
      else
        (if rand < 3/10 then EBasic else if rand < 6/10 then EFast
         else if rand < 9/10 then EStrong else EBoss))"

definition spawnEnemy :: "enemy_kind \<Rightarrow> state \<Rightarrow> state" where
  "spawnEnemy type s =
     (let scaledHealth = \<lfloor>real_of_int (es_health (enemyTypes type)) * difficultyFactor s\<rfloor>;
          enemy = \<lparr>e_id = nextId s, e_x = fst (path ! 0), e_y = snd (path ! 0), e_type = type,
                   e_health = scaledHealth, e_maxHealth = scaledHealth,
                   e_speed = es_speed (enemyTypes type),
                   e_reward = \<lceil>real_of_int (es_reward (enemyTypes type)) *
                                (1 + real_of_int (wave s - 1) * (1/10))\<rceil>,
                   e_pathIndex = 0, e_progress = 0, e_pulseEffect = 0, e_pulseDirection = 1\<rparr>
      in s\<lparr>enemies := enemies s @ [enemy], nextId := Suc (nextId s)\<rparr>)"

text \<open>
  \<open>startWave\<close> clears the spawn interval it finds in \<open>gameState\<close> and registers a new one,
  whose closure starts with \<open>enemiesSpawned = 0\<close>.
\<close>

definition startWave :: "state \<Rightarrow> state" where
  "startWave s =
     (let s1 = calculateWaveDifficulty s;
          count = \<lfloor>8 * (1 + real_of_int (wave s1 - 1) * (2/10))\<rfloor>;
          interval = max 300 (1200 - (wave s1 - 1) * 50)
      in s1\<lparr>waveCompleted := False,
             enemySpawnInterval :=
               Some \<lparr>enemiesSpawned = 0, enemyCount = count, spawnInterval = interval\<rparr>\<rparr>)"

text \<open>The callback of the spawn interval.\<close>

definition spawnTick :: "real \<Rightarrow> state \<Rightarrow> state" where
  "spawnTick rand s =
     (case enemySpawnInterval s of
        None \<Rightarrow> s
      | Some t \<Rightarrow>
          if enemyCount t \<le> enemiesSpawned t then s\<lparr>enemySpawnInterval := None\<rparr>
          else (spawnEnemy (selectEnemyTypeForWave (wave s) rand) s)
                 \<lparr>enemySpawnInterval := Some (t\<lparr>enemiesSpawned := enemiesSpawned t + 1\<rparr>)\<rparr>)"

text \<open>
  \<open>startGame\<close>; the preparation interval it registers is held in a local constant only.
\<close>

definition startGame :: "state \<Rightarrow> state" where
  "startGame s =
     s\<lparr>isPlaying := True, gameScreen := Game, preparationPhase := True,
       preparationTimer := preparationTime, wave := 1, waveStarted := False,
       prepIntervals := Suc (prepIntervals s)\<rparr>"

text \<open>The callback of a preparation interval; at 0 it clears itself and starts the wave.\<close>

definition prepTick :: "state \<Rightarrow> state" where
  "prepTick s =
     (let s1 = s\<lparr>preparationTimer := preparationTimer s - 1\<rparr>
      in if preparationTimer s1 \<le> 0
         then startWave (s1\<lparr>prepIntervals := prepIntervals s1 - 1, preparationPhase := False,
                              waveStarted := True\<rparr>)
         else s1)"

text \<open>
  \<open>checkWaveCompletion\<close>: when it fires it sets the flag and registers the bonus timeout
  (1 second) and the countdown interval (8 ticks of 1 second), both held in local
  constants only.
\<close>

definition completionDue :: "state \<Rightarrow> bool" where
  "completionDue s =
     (\<not> waveCompleted s \<and> enemies s = [] \<and> enemySpawnInterval s = None \<and> waveStarted s)"

definition checkWaveCompletion :: "state \<Rightarrow> state" where
  "checkWaveCompletion s =
     (if completionDue s then
        (let baseBonus = 20;
             waveBonus = baseBonus + wave s * 5;
             nextWaveCountdown = 8
         in s\<lparr>waveCompleted := True,
               bonusTimeouts := bonusTimeouts s @ [waveBonus],
               countdownIntervals := countdownIntervals s @ [nextWaveCountdown]\<rparr>)
      else s)"

text \<open>The callback of the \<open>k\<close>-th pending bonus timeout.\<close>

definition bonusTimeout :: "nat \<Rightarrow> state \<Rightarrow> state" where
  "bonusTimeout k s =
     s\<lparr>money := money s + bonusTimeouts s ! k,
       bonusTimeouts := take k (bonusTimeouts s) @ drop (Suc k) (bonusTimeouts s)\<rparr>"

text \<open>The callback of the \<open>k\<close>-th live countdown interval.\<close>

definition countdownTick :: "nat \<Rightarrow> state \<Rightarrow> state" where
  "countdownTick k s =
     (let nextWaveCountdown = countdownIntervals s ! k - 1
      in if nextWaveCountdown \<le> 0
         then startWave (s\<lparr>countdownIntervals :=
                               take k (countdownIntervals s) @ drop (Suc k) (countdownIntervals s),
                             wave := wave s + 1, waveCompleted := False\<rparr>)
         else s\<lparr>countdownIntervals := (countdownIntervals s)[k := nextWaveCountdown]\<rparr>)"

definition resetGame :: "state \<Rightarrow> state" where
  "resetGame s =
     s\<lparr>money := 75, lives := 1, wave := 1, towers := [], enemies := [], projectiles := [],
       selectedTower := None, difficultyFactor := 1, waveCompleted := False,
       waveStarted := False, enemySpawnInterval := None, waveTimeout := None\<rparr>"

text \<open>The click handler of the restart button and of the game-over dialog's button.\<close>

definition restartClick :: "state \<Rightarrow> state" where
  "restartClick s = (resetGame s)\<lparr>gameScreen := MainMenu\<rparr>"

section \<open>Game loop\<close>

text \<open>
  \<open>update\<close>: completion check, enemies, towers, projectiles, in this order (the effect
  pass is not modelled). \<open>None\<close> is the TypeError of \<open>updateEnemies\<close>.
\<close>

definition update :: "int \<Rightarrow> (nat \<Rightarrow> real) \<Rightarrow> state \<Rightarrow> state option" where
  "update now roll s =
     (case updateEnemies (checkWaveCompletion s) of
        None \<Rightarrow> None
      | Some s1 \<Rightarrow> Some (updateProjectiles (updateTowers now roll s1)))"

definition gameLoop :: "int \<Rightarrow> (nat \<Rightarrow> real) \<Rightarrow> state \<Rightarrow> state option" where
  "gameLoop now roll s =
     (if gameScreen s = Game \<and> isPlaying s then update now roll s else Some s)"

section \<open>Selection and placement requests\<close>

definition selectTower :: "tower_kind \<Rightarrow> state \<Rightarrow> state" where
  "selectTower towerType s =
     (let towerData = towerTypes towerType;
          isUnlocked = (s_unlockWave towerData \<le> wave s);
          isAffordable = (s_cost towerData \<le> money s)
      in if isUnlocked \<and> isAffordable then s\<lparr>selectedTower := Some towerType\<rparr> else s)"

definition canvasWidth :: real where
  "canvasWidth = 800"

definition canvasHeight :: real where
  "canvasHeight = 600"

definition towerClose :: "real \<Rightarrow> real \<Rightarrow> tower \<Rightarrow> bool" where
  "towerClose x y tower = (\<bar>t_x tower - x\<bar> < gridSize \<and> \<bar>t_y tower - y\<bar> < gridSize)"

text \<open>
  The path-proximity loops: segment \<open>i\<close> is sampled at \<open>path[i] + (dx, dy) * j / steps\<close>
  for \<open>j = 0 .. steps\<close>, with \<open>steps = ceil(length / 10)\<close>; a position closer than 30 to
  a sample point is refused.
\<close>

definition segmentSteps :: "nat \<Rightarrow> nat" where
  "segmentSteps i =
     (let dx = fst (path ! Suc i) - fst (path ! i);
          dy = snd (path ! Suc i) - snd (path ! i);
          len = sqrt (dx * dx + dy * dy)
      in nat \<lceil>len / 10\<rceil>)"

definition samplePoint :: "nat \<Rightarrow> nat \<Rightarrow> real \<times> real" where
  "samplePoint i j =
     (let dx = fst (path ! Suc i) - fst (path ! i);
          dy = snd (path ! Suc i) - snd (path ! i);
          steps = segmentSteps i
      in (fst (path ! i) + (dx * real j / real steps),
          snd (path ! i) + (dy * real j / real steps)))"

definition sampleClose :: "real \<Rightarrow> real \<Rightarrow> nat \<Rightarrow> nat \<Rightarrow> bool" where
  "sampleClose x y i j =
     (let pathX = fst (samplePoint i j);
          pathY = snd (samplePoint i j);
          distance = sqrt ((pathX - x) ^ 2 + (pathY - y) ^ 2)
      in distance < 30)"

definition segmentClose :: "real \<Rightarrow> real \<Rightarrow> nat \<Rightarrow> bool" where
  "segmentClose x y i = list_ex (sampleClose x y i) [0..<Suc (segmentSteps i)]"

definition isPositionValid :: "real \<Rightarrow> real \<Rightarrow> state \<Rightarrow> bool" where
  "isPositionValid x y s =
     (if x < 20 \<or> y < 20 \<or> canvasWidth - 20 < x \<or> canvasHeight - 20 < y then False
      else if list_ex (towerClose x y) (towers s) then False
      else if list_ex (segmentClose x y) [0..<length path - 1] then False
      else True)"

text \<open>
  The canvas click handler; \<open>x\<close> and \<open>y\<close> are the click's canvas coordinates, which it
  aligns to the grid (\<open>Math.floor(x / gridSize) * gridSize\<close>).
\<close>

definition snap :: "real \<Rightarrow> real" where
  "snap x = real_of_int \<lfloor>x / gridSize\<rfloor> * gridSize"

definition handleCanvasClick :: "real \<Rightarrow> real \<Rightarrow> state \<Rightarrow> state" where
  "handleCanvasClick x y s =
     (if \<not> isPlaying s then s
      else
        case selectedTower s of
          None \<Rightarrow> s
        | Some towerType \<Rightarrow>
            (let gridX = snap x;
                 gridY = snap y
             in if isPositionValid gridX gridY s
                then (placeTower gridX gridY towerType s)\<lparr>selectedTower := None\<rparr>
                else s))"

section \<open>The session as a transition system\<close>

text \<open>
  The handlers run one at a time. A timer callback can run whenever its timer is
  pending, a frame and a click at any time.
\<close>

datatype event =
    Frame int "nat \<Rightarrow> real"
  | StartClick
  | RestartClick
  | TowerClick tower_kind
  | CanvasClick real real
  | PrepTick
  | SpawnTick real
  | BonusTimeout nat
  | CountdownTick nat
  | HowToPlayClick
  | BackClick

fun fire :: "event \<Rightarrow> state \<Rightarrow> state option" where
  "fire (Frame now roll) s = gameLoop now roll s"
| "fire StartClick s = Some (startGame s)"
| "fire RestartClick s = Some (restartClick s)"
| "fire (TowerClick k) s = Some (selectTower k s)"
| "fire (CanvasClick x y) s = Some (handleCanvasClick x y s)"
| "fire PrepTick s = (if 0 < prepIntervals s then Some (prepTick s) else None)"
| "fire (SpawnTick rand) s =
     (if enemySpawnInterval s \<noteq> None then Some (spawnTick rand s) else None)"
| "fire (BonusTimeout k) s =
     (if k < length (bonusTimeouts s) then Some (bonusTimeout k s) else None)"
| "fire (CountdownTick k) s =
     (if k < length (countdownIntervals s) then Some (countdownTick k s) else None)"
| "fire HowToPlayClick s = Some (s\<lparr>gameScreen := HowToPlay\<rparr>)"
| "fire BackClick s = Some (s\<lparr>gameScreen := MainMenu\<rparr>)"

definition initialState :: state where
  "initialState =
     \<lparr>money = 75, lives = 1, wave = 1, isPlaying = False, selectedTower = None, towers = [],
      enemies = [], projectiles = [], waveTimeout = None, enemySpawnInterval = None,
      gameScreen = MainMenu, preparationPhase = True, preparationTimer = 5,
      difficultyFactor = 1, waveCompleted = False, waveStarted = False, prepIntervals = 0,
      bonusTimeouts = [], countdownIntervals = [], nextId = 0\<rparr>"

text \<open>A sequence of handler runs; \<open>None\<close> when one of them cannot run or throws.\<close>

fun run :: "event list \<Rightarrow> state \<Rightarrow> state option" where
  "run [] s = Some s"
| "run (e # es) s = (case fire e s of None \<Rightarrow> None | Some s' \<Rightarrow> run es s')"

inductive reachable :: "state \<Rightarrow> bool" where
  init: "reachable initialState"
| step: "reachable s \<Longrightarrow> fire e s = Some s' \<Longrightarrow> reachable s'"

section \<open>Concrete sessions\<close>

text \<open>A session in its first wave, after the preparation phase.\<close>

definition playing :: state where
  "playing = initialState\<lparr>isPlaying := True, gameScreen := Game, preparationPhase := False,
     preparationTimer := 0, waveStarted := True\<rparr>"

text \<open>A basic enemy with the given identity, position, health and reward.\<close>

text \<open>
  A projectile of the given type tag, aimed at the enemy with identity \<open>i\<close>, flying at
  \<open>(x, y)\<close> with aim point \<open>(x, y)\<close>.
\<close>

definition projectileAt ::
    "string \<Rightarrow> nat \<Rightarrow> real \<Rightarrow> real \<Rightarrow> int \<Rightarrow> (real \<times> real) option \<Rightarrow> projectile" where
  "projectileAt type i x y damage explosion =
     \<lparr>p_x = x, p_y = y, p_targetX = x, p_targetY = y, p_target = Some i, p_damage = damage,
      p_speed = 5, p_type = type, p_trailInterval = 2, p_trailCounter = 0,
      p_explosion = explosion\<rparr>"

definition enemyAt :: "nat \<Rightarrow> real \<Rightarrow> real \<Rightarrow> int \<Rightarrow> int \<Rightarrow> enemy" where
  "enemyAt i x y h r =
     \<lparr>e_id = i, e_x = x, e_y = y, e_type = EBasic, e_health = h, e_maxHealth = 40,
      e_speed = 1, e_reward = r, e_pathIndex = 0, e_progress = 0, e_pulseEffect = 0,
      e_pulseDirection = 1\<rparr>"

text \<open>
  A session in its first wave with two more spawns pending, a basic tower at (720, 320),
  one enemy about to complete the path and a second one 80.5 units behind it.
\<close>

definition breachSession :: state where
  "breachSession =
     playing\<lparr>enemySpawnInterval := Some \<lparr>enemiesSpawned = 6, enemyCount = 8, spawnInterval = 1200\<rparr>,
             towers := [new_tower 720 320 Basic],
             enemies := [(enemyAt 0 (1599/2) 400 10 10)\<lparr>e_pathIndex := 6, e_progress := 399/2\<rparr>,
                         (enemyAt 1 719 400 40 10)\<lparr>e_pathIndex := 6, e_progress := 119\<rparr>],
             nextId := 6\<rparr>"

text \<open>Critical rolls that all come out as 1/2.\<close>

definition rolls :: "nat \<Rightarrow> real" where
  "rolls i = 1/2"

section \<open>Auxiliary notions\<close>


text \<open>An enemy with its health blanked: what damage never changes.\<close>

definition frame :: "enemy \<Rightarrow> enemy" where
  "frame e = e\<lparr>e_health := 0\<rparr>"

text \<open>
  \<open>es'\<close> is \<open>es\<close> with some enemies removed and nothing but health changed on the rest.
\<close>

definition survivors :: "enemy list \<Rightarrow> enemy list \<Rightarrow> bool" where
  "survivors es es' =
     (map frame es' = filter (\<lambda>f. e_id f \<in> e_id ` set es') (map frame es))"

text \<open>The money plus the rewards still to be earned from the live enemies.\<close>

definition ledger :: "state \<Rightarrow> int" where
  "ledger s = money s + sum_list (map e_reward (enemies s))"

text \<open>
  The relation between the session before and after a stretch of damage resolution: the
  live enemies keep distinct identities, are survivors of the earlier ones, and every
  reward that left the live list went to the money.
\<close>

definition settled :: "state \<Rightarrow> state \<Rightarrow> bool" where
  "settled s s' =
     (distinct (map e_id (enemies s')) \<and> survivors (enemies s) (enemies s') \<and>
      ledger s' = ledger s)"


text \<open>
  The damage-then-defeat-check pattern that every damage path of the program ends in:
  \<open>enemy.health -= d; if (enemy.health <= 0) defeatEnemy(enemy)\<close>.
\<close>

definition strike :: "enemy \<Rightarrow> int \<Rightarrow> state \<Rightarrow> state" where
  "strike enemy d s =
     (let s1 = s\<lparr>enemies := damageEnemy (e_id enemy) d (enemies s)\<rparr>
      in if e_health enemy - d \<le> 0 then defeatEnemy enemy s1 else s1)"

text \<open>The area damage the loop body of the bomber impact deals to an enemy (0 when none).\<close>

definition splashDamage :: "projectile \<Rightarrow> enemy \<Rightarrow> int" where
  "splashDamage projectile enemy =
     (case p_explosion projectile of
        None \<Rightarrow> 0
      | Some (explosionRadius, falloff) \<Rightarrow>
          if explosionDistance projectile enemy \<le> explosionRadius \<and> explosionRadius \<noteq> 0
          then max 0 \<lfloor>real_of_int (p_damage projectile) *
                     (1 - (explosionDistance projectile enemy / explosionRadius) * falloff)\<rfloor>
          else 0)"

text \<open>What becomes of an enemy that takes damage \<open>d\<close>: removed, or left with less health.\<close>

definition after_damage :: "enemy \<Rightarrow> int \<Rightarrow> enemy option" where
  "after_damage enemy d =
     (if 0 < d \<and> e_health enemy - d \<le> 0 then None
      else Some (enemy\<lparr>e_health := e_health enemy - d\<rparr>))"

definition alive :: "enemy list \<Rightarrow> bool" where
  "alive es = list_all (\<lambda>e. 0 < e_health e) es"

text \<open>The wave counter, the phase flags, the selection, the screen and the pending timers.\<close>

definition phase :: "state \<Rightarrow>
    int \<times> bool \<times> bool \<times> bool \<times> spawn_timer option \<times> nat \<times> int list \<times> int list \<times>
    screen \<times> tower_kind option \<times> nat" where
  "phase s =
     (wave s, preparationPhase s, waveStarted s, waveCompleted s, enemySpawnInterval s,
      prepIntervals s, bonusTimeouts s, countdownIntervals s, gameScreen s, selectedTower s,
      nextId s)"

text \<open>
  What every enemy of a session the program reaches satisfies: its identity was handed out
  by \<open>spawnEnemy\<close>, and it is on a segment of the path.
\<close>

definition wellformed :: "state \<Rightarrow> bool" where
  "wellformed s =
     (distinct (map e_id (enemies s)) \<and>
      list_all (\<lambda>e. e_id e < nextId s \<and> Suc (e_pathIndex e) < length path) (enemies s))"

section \<open>Unfolding rules for concrete sessions\<close>

lemmas tower_defs = new_tower_def tower_literal_def placeTower_def

lemmas fixture_defs = playing_def initialState_def enemyAt_def projectileAt_def

lemmas step_defs = updateTowers_def towerStep_def onCooldown_def enemyDistance_def
  createStandardProjectile_def createBomberProjectile_def defeatEnemy_def damageEnemy_def Let_def


section \<open>Target acquisition\<close>

lemma scanEnemies_none:
  "\<forall>e\<in>set es. d \<le> enemyDistance t e \<Longrightarrow> scanEnemies t es (c, d) = (c, d)"
  by (induction es) (auto simp: Let_def)

lemma scanEnemies_some:
  "\<exists>e\<in>set es. enemyDistance t e < d \<Longrightarrow>
   \<exists>k<length es. scanEnemies t es (c, d) = (Some (es ! k), enemyDistance t (es ! k)) \<and>
      enemyDistance t (es ! k) < d \<and>
      (\<forall>j<length es. enemyDistance t (es ! k) \<le> enemyDistance t (es ! j)) \<and>
      (\<forall>j<k. enemyDistance t (es ! k) < enemyDistance t (es ! j))"
proof (induction es arbitrary: c d)
  case Nil
  then show ?case by simp
next
  case (Cons e rest)
  let ?de = "enemyDistance t e"
  show ?case
  proof (cases "?de < d")
    case True
    note closer = this
    show ?thesis
    proof (cases "\<exists>x\<in>set rest. enemyDistance t x < ?de")
      case True
      from Cons.IH[OF True, of "Some e"] obtain k where k: "k < length rest"
        "scanEnemies t rest (Some e, ?de) = (Some (rest ! k), enemyDistance t (rest ! k))"
        "enemyDistance t (rest ! k) < ?de"
        "\<forall>j<length rest. enemyDistance t (rest ! k) \<le> enemyDistance t (rest ! j)"
        "\<forall>j<k. enemyDistance t (rest ! k) < enemyDistance t (rest ! j)"
        by blast
      have "Suc k < length (e # rest)" using k(1) by simp
      moreover have "scanEnemies t (e # rest) (c, d) =
          (Some ((e # rest) ! Suc k), enemyDistance t ((e # rest) ! Suc k))"
        using closer k(2) by simp
      moreover have "enemyDistance t ((e # rest) ! Suc k) < d"
        using k(3) closer by simp
      moreover have "\<forall>j<length (e # rest).
          enemyDistance t ((e # rest) ! Suc k) \<le> enemyDistance t ((e # rest) ! j)"
        using k(3,4) by (auto simp: nth_Cons split: nat.splits)
      moreover have "\<forall>j<Suc k.
          enemyDistance t ((e # rest) ! Suc k) < enemyDistance t ((e # rest) ! j)"
        using k(3,5) by (auto simp: nth_Cons split: nat.splits)
      ultimately show ?thesis by blast
    next
      case False
      then have all: "\<forall>x\<in>set rest. ?de \<le> enemyDistance t x" by auto
      have "scanEnemies t (e # rest) (c, d) = (Some e, ?de)"
        using closer scanEnemies_none[OF all] by simp
      moreover have "\<forall>j<length (e # rest). ?de \<le> enemyDistance t ((e # rest) ! j)"
        using all by (auto simp: nth_Cons split: nat.splits)
      ultimately have "0 < length (e # rest) \<and>
          scanEnemies t (e # rest) (c, d) = (Some ((e # rest) ! 0), enemyDistance t ((e # rest) ! 0)) \<and>
          enemyDistance t ((e # rest) ! 0) < d \<and>
          (\<forall>j<length (e # rest). enemyDistance t ((e # rest) ! 0) \<le> enemyDistance t ((e # rest) ! j)) \<and>
          (\<forall>j<0. enemyDistance t ((e # rest) ! 0) < enemyDistance t ((e # rest) ! j))"
        using closer by simp
      then show ?thesis by blast
    qed
  next
    case False
    with Cons.prems have ex: "\<exists>x\<in>set rest. enemyDistance t x < d" by auto
    from Cons.IH[OF ex, of c] obtain k where k: "k < length rest"
      "scanEnemies t rest (c, d) = (Some (rest ! k), enemyDistance t (rest ! k))"
      "enemyDistance t (rest ! k) < d"
      "\<forall>j<length rest. enemyDistance t (rest ! k) \<le> enemyDistance t (rest ! j)"
      "\<forall>j<k. enemyDistance t (rest ! k) < enemyDistance t (rest ! j)"
      by blast
    have "Suc k < length (e # rest)" using k(1) by simp
    moreover have "scanEnemies t (e # rest) (c, d) =
        (Some ((e # rest) ! Suc k), enemyDistance t ((e # rest) ! Suc k))"
      using False k(2) by simp
    moreover have "enemyDistance t ((e # rest) ! Suc k) < d"
      using k(3) by simp
    moreover have "\<forall>j<length (e # rest).
        enemyDistance t ((e # rest) ! Suc k) \<le> enemyDistance t ((e # rest) ! j)"
      using k(3,4) False by (auto simp: nth_Cons split: nat.splits)
    moreover have "\<forall>j<Suc k.
        enemyDistance t ((e # rest) ! Suc k) < enemyDistance t ((e # rest) ! j)"
      using k(3,5) False by (auto simp: nth_Cons split: nat.splits)
    ultimately show ?thesis by blast
  qed
qed
















section \<open>The type field of a placed tower\<close>

text \<open>
  C10. A placed tower whose kind has a special-ability descriptor ends up with the
  descriptor's type string in its type field (\<open>critical\<close> for the sniper kind,
  \<open>explosion\<close> for the bomber kind), because the descriptor is merged in after the
  template; a tower of a kind without a descriptor keeps its kind string.
\<close>

theorem placeTower_type_field:
  "t_type (last (towers (placeTower x y k s))) =
     (case s_special (towerTypes k) of
        None \<Rightarrow> kind_name k
      | Some sp \<Rightarrow> special_type sp) \<and>
   t_type (last (towers (placeTower x y Sniper s))) = ''critical'' \<and>
   t_type (last (towers (placeTower x y Bomber s))) = ''explosion'' \<and>
   t_type (last (towers (placeTower x y Basic s))) = ''basic'' \<and>
   t_type (last (towers (placeTower x y Cannon s))) = ''cannon'' \<and>
   t_type (last (towers (placeTower x y Magic s))) = ''magic''"
  by (cases k) (simp_all add: tower_defs)


text \<open>
  C1. A bomber tower that fires should spawn a splash projectile tagged \<open>bomber\<close> with
  explosion radius 60 and falloff 0.5. The tower pass dispatches on the type field, which
  for a placed bomber tower is \<open>explosion\<close>: at wave 7, a bomber tower placed at (200, 40)
  with an enemy at (200, 120) fires a standard projectile, tagged \<open>explosion\<close>, with no
  explosion radius and no falloff.
\<close>

theorem placed_bomber_fires_standard_projectile:
  "t_type (new_tower x y Bomber) \<noteq> ''bomber'' \<and>
   (let s = placeTower 200 40 Bomber (playing\<lparr>money := 200, wave := 7, enemies := [enemyAt 0 200 120 40 10]\<rparr>);
        s' = updateTowers 5000 (\<lambda>_. 0) s
    in map t_type (towers s) = [''explosion''] \<and>
       map t_target (towers s') = [Some 0] \<and>
       map (\<lambda>p. (p_type p, p_explosion p, p_damage p, p_speed p, p_target p)) (projectiles s') =
         [(''explosion'', None, 50, 5, Some 0)])"
  by (simp add: tower_defs fixture_defs step_defs)

text \<open>
  C2. A sniper tower that fires should damage its target at once and spawn no projectile.
  The type field of a placed sniper tower is \<open>critical\<close>, so the instant-hit branch is not
  taken: at wave 5, a sniper tower placed at (200, 40) with an enemy at (200, 120) leaves
  the enemy's health and the money as they were and spawns a standard projectile of damage
  80, whatever the critical roll.
\<close>

theorem placed_sniper_fires_standard_projectile:
  "t_type (new_tower x y Sniper) \<noteq> ''sniper'' \<and>
   (let s = placeTower 200 40 Sniper (playing\<lparr>money := 200, wave := 5, enemies := [enemyAt 0 200 120 40 10]\<rparr>);
        s' = updateTowers 5000 (\<lambda>_. 0) s
    in map t_type (towers s) = [''critical''] \<and>
       map t_target (towers s') = [Some 0] \<and>
       enemies s' = enemies s \<and> money s' = money s \<and>
       map (\<lambda>p. (p_type p, p_damage p, p_target p)) (projectiles s') = [(''critical'', 80, Some 0)])"
  by (simp add: tower_defs fixture_defs step_defs)



section \<open>Resolving references to enemies\<close>

lemma lookupEnemy_Some_id: "lookupEnemy i es = Some e \<Longrightarrow> e_id e = i \<and> e \<in> set es"
  by (induction es) (auto simp: lookupEnemy_def split: if_splits)

lemma lookupEnemy_None: "lookupEnemy i es = None \<longleftrightarrow> i \<notin> e_id ` set es"
  by (induction es) (auto simp: lookupEnemy_def)

lemma lookupEnemy_member:
  "distinct (map e_id es) \<Longrightarrow> e \<in> set es \<Longrightarrow> lookupEnemy (e_id e) es = Some e"
  by (induction es) (auto simp: lookupEnemy_def)

lemma lookupEnemy_damage:
  "lookupEnemy j (damageEnemy i d es) =
     (if j = i then map_option (\<lambda>e. e\<lparr>e_health := e_health e - d\<rparr>) (lookupEnemy j es)
      else lookupEnemy j es)"
  by (induction es) (auto simp: lookupEnemy_def damageEnemy_def)

lemma lookupEnemy_filter:
  "lookupEnemy j (filter (\<lambda>e. e_id e \<noteq> i) es) = (if j = i then None else lookupEnemy j es)"
  by (induction es) (auto simp: lookupEnemy_def)

section \<open>Survivors and the ledger\<close>

lemma frame_simps [simp]:
  "e_id (frame e) = e_id e" "e_reward (frame e) = e_reward e"
  "e_x (frame e) = e_x e" "e_y (frame e) = e_y e" "e_pathIndex (frame e) = e_pathIndex e"
  "frame (e\<lparr>e_health := h\<rparr>) = frame e"
  by (simp_all add: frame_def)

lemma map_id_damage [simp]: "map e_id (damageEnemy i d es) = map e_id es"
  by (simp add: damageEnemy_def comp_def)

lemma map_frame_damage [simp]: "map frame (damageEnemy i d es) = map frame es"
  by (induction es) (simp_all add: damageEnemy_def)

lemma map_reward_damage [simp]: "map e_reward (damageEnemy i d es) = map e_reward es"
  by (induction es) (simp_all add: damageEnemy_def)

lemma set_id_damage [simp]: "e_id ` set (damageEnemy i d es) = e_id ` set es"
  using map_id_damage[of i d es] by (metis list.set_map)

lemma survivors_refl: "survivors es es"
  unfolding survivors_def by (induction es) auto

lemma survivors_ids: "survivors es es' \<Longrightarrow> e_id ` set es' \<subseteq> e_id ` set es"
proof -
  assume a: "survivors es es'"
  have "e_id ` set es' = e_id ` set (map frame es')"
    by (simp add: image_image)
  also have "\<dots> = e_id ` set (filter (\<lambda>f. e_id f \<in> e_id ` set es') (map frame es))"
    using a by (simp only: survivors_def)
  also have "\<dots> \<subseteq> e_id ` set (map frame es)"
    by (rule image_mono) simp
  also have "\<dots> = e_id ` set es"
    by (simp add: image_image)
  finally show ?thesis .
qed

lemma survivors_trans:
  assumes "survivors es es'" and "survivors es' es''"
  shows "survivors es es''"
proof -
  have sub: "e_id ` set es'' \<subseteq> e_id ` set es'" using assms(2) by (rule survivors_ids)
  have "map frame es'' = filter (\<lambda>f. e_id f \<in> e_id ` set es'') (map frame es')"
    using assms(2) by (simp add: survivors_def)
  also have "\<dots> = filter (\<lambda>f. e_id f \<in> e_id ` set es'')
      (filter (\<lambda>f. e_id f \<in> e_id ` set es') (map frame es))"
    using assms(1) by (simp add: survivors_def)
  also have "\<dots> = filter (\<lambda>f. e_id f \<in> e_id ` set es'') (map frame es)"
    using sub by (auto intro!: filter_cong)
  finally show ?thesis by (simp add: survivors_def)
qed

lemma survivors_damage: "survivors es (damageEnemy i d es)"
  using survivors_refl[of es] by (simp add: survivors_def)

lemma survivors_filter: "survivors es (filter (\<lambda>e. e_id e \<noteq> i) es)"
proof -
  define S where "S = e_id ` set (filter (\<lambda>e. e_id e \<noteq> i) es)"
  have "filter (\<lambda>f. e_id f \<in> S) (map frame es) = map frame (filter (\<lambda>e. e_id e \<in> S) es)"
    by (simp add: filter_map comp_def)
  also have "filter (\<lambda>e. e_id e \<in> S) es = filter (\<lambda>e. e_id e \<noteq> i) es"
    by (rule filter_cong) (auto simp: S_def)
  finally show ?thesis
    by (simp add: survivors_def S_def)
qed

lemma sum_reward_remove:
  "distinct (map e_id es) \<Longrightarrow> lookupEnemy i es = Some e \<Longrightarrow>
   sum_list (map e_reward (filter (\<lambda>x. e_id x \<noteq> i) es)) = sum_list (map e_reward es) - e_reward e"
proof (induction es)
  case Nil
  then show ?case by (simp add: lookupEnemy_def)
next
  case (Cons a es)
  show ?case
  proof (cases "e_id a = i")
    case True
    then have "e = a" using Cons.prems(2) by (simp add: lookupEnemy_def)
    moreover have "\<forall>x\<in>set es. e_id x \<noteq> i"
      using Cons.prems(1) True by (auto simp: image_iff)
    then have "filter (\<lambda>x. e_id x \<noteq> i) es = es"
      by (simp add: filter_id_conv)
    ultimately show ?thesis using True by simp
  next
    case False
    then have "lookupEnemy i es = Some e" using Cons.prems(2) by (simp add: lookupEnemy_def)
    with Cons.IH Cons.prems(1) False show ?thesis by simp
  qed
qed

lemma settled_refl: "distinct (map e_id (enemies s)) \<Longrightarrow> settled s s"
  by (simp add: settled_def survivors_refl)

lemma settled_trans: "settled s s' \<Longrightarrow> settled s' s'' \<Longrightarrow> settled s s''"
  by (auto simp: settled_def intro: survivors_trans)

lemma settled_hit:
  "distinct (map e_id (enemies s)) \<Longrightarrow>
   settled s (s\<lparr>enemies := damageEnemy i d (enemies s)\<rparr>)"
  by (simp add: settled_def survivors_damage ledger_def)

lemma settled_defeat:
  assumes "distinct (map e_id (enemies s))"
    and "lookupEnemy (e_id e) (enemies s) = Some e'" and "e_reward e' = e_reward e"
  shows "settled s (defeatEnemy e s)"
  using assms sum_reward_remove[OF assms(1,2)]
  by (simp add: settled_def defeatEnemy_def survivors_filter ledger_def distinct_map_filter)



section \<open>One strike\<close>

lemma strike_lookup:
  "lookupEnemy j (enemies (strike e d s)) =
     (if j = e_id e
      then (if e_health e - d \<le> 0 then None
            else map_option (\<lambda>x. x\<lparr>e_health := e_health x - d\<rparr>) (lookupEnemy j (enemies s)))
      else lookupEnemy j (enemies s))"
  by (simp add: strike_def Let_def defeatEnemy_def lookupEnemy_filter lookupEnemy_damage)

lemma strike_settled:
  assumes "distinct (map e_id (enemies s))"
    and "lookupEnemy (e_id e) (enemies s) = Some e'" and "e_reward e' = e_reward e"
  shows "settled s (strike e d s)"
proof -
  let ?s1 = "s\<lparr>enemies := damageEnemy (e_id e) d (enemies s)\<rparr>"
  have 1: "settled s ?s1" using assms(1) by (rule settled_hit)
  show ?thesis
  proof (cases "e_health e - d \<le> 0")
    case True
    have a: "distinct (map e_id (enemies ?s1))" using assms(1) by simp
    have b: "lookupEnemy (e_id e) (enemies ?s1) = Some (e'\<lparr>e_health := e_health e' - d\<rparr>)"
      using assms(2) by (simp add: lookupEnemy_damage)
    have c: "e_reward (e'\<lparr>e_health := e_health e' - d\<rparr>) = e_reward e"
      using assms(3) by simp
    have "settled ?s1 (defeatEnemy e ?s1)"
      using a b c by (rule settled_defeat)
    with 1 True show ?thesis by (simp add: strike_def Let_def settled_trans)
  next
    case False
    with 1 show ?thesis by (simp add: strike_def Let_def)
  qed
qed

lemma strike_other_fields:
  "towers (strike e d s) = towers s" "projectiles (strike e d s) = projectiles s"
  "lives (strike e d s) = lives s" "isPlaying (strike e d s) = isPlaying s"
  by (simp_all add: strike_def Let_def defeatEnemy_def)

lemma standardImpact_strike: "standardImpact p t s = strike t (p_damage p) s"
  by (simp add: standardImpact_def strike_def)

lemma splashStep_strike:
  "splashStep p t e s =
     (if e_id e = e_id t \<or> splashDamage p e \<le> 0 then s else strike e (splashDamage p e) s)"
  by (auto simp: splashStep_def splashDamage_def strike_def Let_def split: option.splits)

lemma splashDamage_nonneg: "0 \<le> splashDamage p e"
  by (simp add: splashDamage_def split: option.splits)




section \<open>The area-damage loop\<close>

lemma after_damage_zero: "after_damage e 0 = Some e"
  by (simp add: after_damage_def)

lemma splash_loop:
  assumes "distinct (map e_id (enemies s))" and "distinct (map e_id es)"
    and "\<forall>e\<in>set es. lookupEnemy (e_id e) (enemies s) = Some e"
  shows "settled s (fold (splashStep p t) es s) \<and>
         (\<forall>j. j \<notin> e_id ` set es \<or> j = e_id t \<longrightarrow>
              lookupEnemy j (enemies (fold (splashStep p t) es s)) = lookupEnemy j (enemies s)) \<and>
         (\<forall>e\<in>set es. e_id e \<noteq> e_id t \<longrightarrow>
              lookupEnemy (e_id e) (enemies (fold (splashStep p t) es s)) =
                after_damage e (splashDamage p e))"
  using assms
proof (induction es arbitrary: s)
  case Nil
  then show ?case by (simp add: settled_refl)
next
  case (Cons a es)
  let ?s' = "splashStep p t a s"
  let ?fin = "fold (splashStep p t) es ?s'"
  have a_notin: "e_id a \<notin> e_id ` set es" using Cons.prems(2) by (auto simp: image_iff)
  have la: "lookupEnemy (e_id a) (enemies s) = Some a" using Cons.prems(3) by simp
  have step_settled: "settled s ?s'"
  proof (cases "e_id a = e_id t \<or> splashDamage p a \<le> 0")
    case True
    then show ?thesis using Cons.prems(1) by (simp add: splashStep_strike settled_refl)
  next
    case False
    then show ?thesis
      using strike_settled[OF Cons.prems(1) la] by (simp add: splashStep_strike)
  qed
  have step_lookup: "lookupEnemy j (enemies ?s') = lookupEnemy j (enemies s)" if "j \<noteq> e_id a" for j
    using that by (simp add: splashStep_strike strike_lookup)
  have step_a: "e_id a \<noteq> e_id t \<Longrightarrow> lookupEnemy (e_id a) (enemies ?s') = after_damage a (splashDamage p a)"
    using la splashDamage_nonneg[of p a]
    by (cases "splashDamage p a = 0")
       (auto simp: splashStep_strike strike_lookup after_damage_def)
  have d': "distinct (map e_id (enemies ?s'))" using step_settled by (simp add: settled_def)
  have d_es: "distinct (map e_id es)" using Cons.prems(2) by simp
  have l_es: "\<forall>e\<in>set es. lookupEnemy (e_id e) (enemies ?s') = Some e"
  proof
    fix e assume e: "e \<in> set es"
    then have "e_id e \<noteq> e_id a" using a_notin by (metis imageI)
    then show "lookupEnemy (e_id e) (enemies ?s') = Some e"
      using step_lookup Cons.prems(3) e by simp
  qed
  note IH = Cons.IH[OF d' d_es l_es]
  have 1: "settled s ?fin" using step_settled IH by (blast intro: settled_trans)
  have 2: "lookupEnemy j (enemies ?fin) = lookupEnemy j (enemies s)"
    if "j \<notin> e_id ` set (a # es) \<or> j = e_id t" for j
  proof (cases "j = e_id a")
    case True
    with that have "e_id a = e_id t" by auto
    then have "?s' = s" by (simp add: splashStep_strike)
    moreover have "lookupEnemy j (enemies ?fin) = lookupEnemy j (enemies ?s')"
      using IH that True a_notin by auto
    ultimately show ?thesis by simp
  next
    case False
    have "lookupEnemy j (enemies ?fin) = lookupEnemy j (enemies ?s')"
      using IH that by auto
    with step_lookup[OF False] show ?thesis by simp
  qed
  have 3: "lookupEnemy (e_id e) (enemies ?fin) = after_damage e (splashDamage p e)"
    if "e \<in> set (a # es)" "e_id e \<noteq> e_id t" for e
  proof (cases "e \<in> set es")
    case True
    then show ?thesis using IH that(2) by blast
  next
    case False
    with that(1) have ea: "e = a" by simp
    have "lookupEnemy (e_id a) (enemies ?fin) = lookupEnemy (e_id a) (enemies ?s')"
      using IH a_notin by blast
    with step_a that(2) ea show ?thesis by simp
  qed
  from 1 2 3 show ?case by (simp only: fold_simps) blast
qed



section \<open>Bomber impact\<close>

lemma damageEnemy_other: "e \<in> set es \<Longrightarrow> e_id e \<noteq> i \<Longrightarrow> e \<in> set (damageEnemy i d es)"
  by (force simp: damageEnemy_def)

lemma bomberImpact_resolved:
  assumes "distinct (map e_id (enemies s))"
    and "lookupEnemy (e_id t) (enemies s) = Some t"
  shows "settled s (bomberImpact p t s) \<and>
         lookupEnemy (e_id t) (enemies (bomberImpact p t s)) =
           (if e_health t - p_damage p \<le> 0 then None
            else Some (t\<lparr>e_health := e_health t - p_damage p\<rparr>)) \<and>
         (\<forall>e\<in>set (enemies s). e_id e \<noteq> e_id t \<longrightarrow>
            lookupEnemy (e_id e) (enemies (bomberImpact p t s)) = after_damage e (splashDamage p e))"
proof -
  let ?s1 = "s\<lparr>enemies := damageEnemy (e_id t) (p_damage p) (enemies s)\<rparr>"
  let ?s2 = "fold (splashStep p t) (enemies ?s1) ?s1"
  have s1: "settled s ?s1" using assms(1) by (rule settled_hit)
  have d1: "distinct (map e_id (enemies ?s1))" using assms(1) by simp
  have l1: "\<forall>e\<in>set (enemies ?s1). lookupEnemy (e_id e) (enemies ?s1) = Some e"
    using d1 by (simp add: lookupEnemy_member)
  note loop = splash_loop[OF d1 d1 l1, of p t]
  have s2: "settled s ?s2" using s1 loop by (blast intro: settled_trans)
  have d2: "distinct (map e_id (enemies ?s2))" using s2 by (simp add: settled_def)
  have lt2: "lookupEnemy (e_id t) (enemies ?s2) = Some (t\<lparr>e_health := e_health t - p_damage p\<rparr>)"
  proof -
    have "lookupEnemy (e_id t) (enemies ?s2) = lookupEnemy (e_id t) (enemies ?s1)"
      using loop by blast
    then show ?thesis using assms(2) by (simp add: lookupEnemy_damage)
  qed
  have others2: "lookupEnemy (e_id e) (enemies ?s2) = after_damage e (splashDamage p e)"
    if "e \<in> set (enemies s)" "e_id e \<noteq> e_id t" for e
  proof -
    have "e \<in> set (enemies ?s1)" using that by (simp add: damageEnemy_other)
    then show ?thesis using loop that(2) by blast
  qed
  show ?thesis
  proof (cases "e_health t - p_damage p \<le> 0")
    case True
    have "settled ?s2 (defeatEnemy t ?s2)"
      using d2 lt2 by (rule settled_defeat) simp
    with s2 have "settled s (defeatEnemy t ?s2)" by (rule settled_trans)
    moreover have "lookupEnemy j (enemies (defeatEnemy t ?s2)) =
        (if j = e_id t then None else lookupEnemy j (enemies ?s2))" for j
      by (simp add: defeatEnemy_def lookupEnemy_filter)
    ultimately show ?thesis
      using True others2 by (simp add: bomberImpact_def Let_def)
  next
    case False
    then show ?thesis
      using s2 lt2 others2 by (simp add: bomberImpact_def Let_def)
  qed
qed

section \<open>Survivors are alive\<close>

lemma alive_strike:
  assumes "distinct (map e_id (enemies s))" and "lookupEnemy (e_id t) (enemies s) = Some t"
    and "alive (enemies s)"
  shows "alive (enemies (strike t d s))"
  unfolding alive_def list_all_iff
proof
  fix x assume x: "x \<in> set (enemies (strike t d s))"
  have st: "settled s (strike t d s)" using assms(1,2) by (rule strike_settled) simp
  then have dx: "distinct (map e_id (enemies (strike t d s)))" by (simp add: settled_def)
  have lx: "lookupEnemy (e_id x) (enemies (strike t d s)) = Some x"
    using dx x by (rule lookupEnemy_member)
  show "0 < e_health x"
  proof (cases "e_id x = e_id t")
    case True
    with lx assms(2) show ?thesis by (auto simp: strike_lookup split: if_splits)
  next
    case False
    with lx have "lookupEnemy (e_id x) (enemies s) = Some x" by (simp add: strike_lookup)
    then have "x \<in> set (enemies s)" by (simp add: lookupEnemy_Some_id)
    with assms(3) show ?thesis by (simp add: alive_def list_all_iff)
  qed
qed

lemma alive_bomberImpact:
  assumes "distinct (map e_id (enemies s))" and "lookupEnemy (e_id t) (enemies s) = Some t"
    and "alive (enemies s)"
  shows "alive (enemies (bomberImpact p t s))"
  unfolding alive_def list_all_iff
proof
  let ?s' = "bomberImpact p t s"
  fix x assume x: "x \<in> set (enemies ?s')"
  note res = bomberImpact_resolved[OF assms(1,2), where p = p]
  from res have dx: "distinct (map e_id (enemies ?s'))" by (simp add: settled_def)
  have lx: "lookupEnemy (e_id x) (enemies ?s') = Some x"
    using dx x by (rule lookupEnemy_member)
  show "0 < e_health x"
  proof (cases "e_id x = e_id t")
    case True
    with lx res show ?thesis by (auto split: if_splits)
  next
    case False
    from res have "e_id ` set (enemies ?s') \<subseteq> e_id ` set (enemies s)"
      by (simp add: settled_def survivors_ids)
    with x obtain e where e: "e \<in> set (enemies s)" "e_id e = e_id x" by (auto simp: image_iff)
    with False res have "lookupEnemy (e_id e) (enemies ?s') = after_damage e (splashDamage p e)"
      by auto
    with lx e(2) have ad: "after_damage e (splashDamage p e) = Some x" by simp
    have "0 < e_health e" using assms(3) e(1) by (simp add: alive_def list_all_iff)
    with ad splashDamage_nonneg[of p e] show ?thesis
      by (cases "splashDamage p e = 0") (auto simp: after_damage_def split: if_splits)
  qed
qed

section \<open>The projectile pass\<close>

lemma liveTarget_lookup:
  "liveTarget p s = Some t \<Longrightarrow> lookupEnemy (e_id t) (enemies s) = Some t"
  by (auto simp: liveTarget_def split: option.splits dest: lookupEnemy_Some_id)

lemma bomberImpact_fields:
  "projectiles (bomberImpact p t s) = projectiles s"
proof -
  have "projectiles (fold (splashStep p t) es s) = projectiles s" for es s
    by (induction es arbitrary: s) (simp_all add: splashStep_strike strike_other_fields)
  then show ?thesis by (simp add: bomberImpact_def Let_def defeatEnemy_def)
qed

lemma projectileStep_settled:
  assumes "distinct (map e_id (enemies s))"
  shows "settled s (projectileStep i s) \<and>
         (alive (enemies s) \<longrightarrow> alive (enemies (projectileStep i s)))"
proof -
  have stale: "settled s (s\<lparr>projectiles := ps\<rparr>)" for ps
    using assms by (simp add: settled_def survivors_refl ledger_def)
  have std: "settled s ((standardImpact p t s)\<lparr>projectiles := ps\<rparr>) \<and>
      (alive (enemies s) \<longrightarrow> alive (enemies ((standardImpact p t s)\<lparr>projectiles := ps\<rparr>)))"
    if "liveTarget p s = Some t" for p t ps
    using strike_settled[OF assms liveTarget_lookup[OF that], where d = "p_damage p"]
      alive_strike[OF assms liveTarget_lookup[OF that], where d = "p_damage p"]
    by (simp add: standardImpact_strike settled_def ledger_def)
  have bmb: "settled s ((bomberImpact p t s)\<lparr>projectiles := ps\<rparr>) \<and>
      (alive (enemies s) \<longrightarrow> alive (enemies ((bomberImpact p t s)\<lparr>projectiles := ps\<rparr>)))"
    if "liveTarget p s = Some t" for p t ps
    using bomberImpact_resolved[OF assms liveTarget_lookup[OF that], where p = p]
      alive_bomberImpact[OF assms liveTarget_lookup[OF that], where p = p]
    by (simp add: settled_def ledger_def)
  show ?thesis
    unfolding projectileStep_def Let_def
    using stale std bmb by (auto split: option.splits)
qed

lemma projectileLoop_settled:
  "distinct (map e_id (enemies s)) \<Longrightarrow>
   settled s (projectileLoop n s) \<and> (alive (enemies s) \<longrightarrow> alive (enemies (projectileLoop n s)))"
proof (induction n arbitrary: s)
  case 0
  then show ?case by (simp add: settled_refl)
next
  case (Suc n)
  let ?s' = "projectileStep n s"
  from projectileStep_settled[OF Suc.prems, of n]
  have 1: "settled s ?s'" and 2: "alive (enemies s) \<longrightarrow> alive (enemies ?s')" by simp_all
  from 1 have "distinct (map e_id (enemies ?s'))" by (simp add: settled_def)
  from Suc.IH[OF this] 1 2 show ?case by (auto intro: settled_trans)
qed

section \<open>Rewards of the enemies that left the live list\<close>

lemma sum_list_filter_split:
  "sum_list (map f xs) = sum_list (map f (filter P xs)) + sum_list (map f (filter (\<lambda>x. \<not> P x) xs))"
  for f :: "'a \<Rightarrow> int"
  by (induction xs) simp_all

lemma settled_money:
  assumes "settled s s'"
  shows "money s' = money s +
     sum_list (map e_reward (filter (\<lambda>e. e_id e \<notin> e_id ` set (enemies s')) (enemies s)))"
proof -
  let ?S = "e_id ` set (enemies s')"
  have "map e_reward (enemies s') = map e_reward (map frame (enemies s'))"
    by (simp add: comp_def)
  also have "\<dots> = map e_reward (filter (\<lambda>f. e_id f \<in> ?S) (map frame (enemies s)))"
    using assms by (simp only: settled_def survivors_def)
  also have "\<dots> = map e_reward (filter (\<lambda>e. e_id e \<in> ?S) (enemies s))"
    by (simp add: filter_map comp_def)
  finally have "sum_list (map e_reward (enemies s')) =
      sum_list (map e_reward (filter (\<lambda>e. e_id e \<in> ?S) (enemies s)))" by simp
  moreover have "ledger s' = ledger s" using assms by (simp add: settled_def)
  ultimately show ?thesis
    using sum_list_filter_split[of e_reward "enemies s" "\<lambda>e. e_id e \<in> ?S"]
    by (simp add: ledger_def)
qed



lemma liveTarget_track [simp]: "liveTarget (track p s') s = liveTarget p s"
  by (simp add: liveTarget_def track_def split: option.splits)

lemma liveTarget_trailTick [simp]: "liveTarget (trailTick p) s = liveTarget p s"
  by (simp add: liveTarget_def trailTick_def Let_def)

lemma projectileStep_stale:
  "liveTarget (projectiles s ! i) s = None \<Longrightarrow>
   enemies (projectileStep i s) = enemies s \<and> money (projectileStep i s) = money s"
  by (simp add: projectileStep_def Let_def)

section \<open>Defeat is processed once\<close>

text \<open>
  C4. Defeat is processed once per enemy in a projectile pass. From live enemies with
  distinct identities, the pass leaves distinct survivors of the enemies it started with,
  and the money grows by exactly the rewards of the enemies that left the live list, each
  counted once, however many projectiles or splash hits reached them; no enemy with
  health 0 or less stays live; and a projectile whose target is no longer live changes
  neither the enemies nor the money. (Identities are distinct in every session the program
  reaches, see \<open>reachable_wellformed\<close> below.)
\<close>

theorem defeat_exactly_once:
  assumes "distinct (map e_id (enemies s))"
  shows "distinct (map e_id (enemies (updateProjectiles s))) \<and>
         e_id ` set (enemies (updateProjectiles s)) \<subseteq> e_id ` set (enemies s) \<and>
         money (updateProjectiles s) = money s +
           sum_list (map e_reward
             (filter (\<lambda>e. e_id e \<notin> e_id ` set (enemies (updateProjectiles s))) (enemies s))) \<and>
         (alive (enemies s) \<longrightarrow> alive (enemies (updateProjectiles s))) \<and>
         (\<forall>i. liveTarget (projectiles s ! i) s = None \<longrightarrow>
              enemies (projectileStep i s) = enemies s \<and> money (projectileStep i s) = money s)"
proof -
  from projectileLoop_settled[OF assms, of "length (projectiles s)"]
  have st: "settled s (updateProjectiles s)"
    and al: "alive (enemies s) \<longrightarrow> alive (enemies (updateProjectiles s))"
    by (simp_all add: updateProjectiles_def)
  from st have "distinct (map e_id (enemies (updateProjectiles s)))"
    and "e_id ` set (enemies (updateProjectiles s)) \<subseteq> e_id ` set (enemies s)"
    by (simp_all add: settled_def survivors_ids)
  with settled_money[OF st] al projectileStep_stale show ?thesis by blast
qed

lemmas projectile_defs = updateProjectiles_def projectileStep_def trailTick_def track_def
  liveTarget_def lookupEnemy_def standardImpact_def bomberImpact_def splashStep_def
  explosionDistance_def damageEnemy_def defeatEnemy_def Let_def




text \<open>
  The theorem at a session where a direct shot (damage 10) at an enemy of health 10 and
  reward 10 and a bomber shell at its neighbour, 10 units away, resolve in the same pass:
  the enemy is gone, the neighbour is left with health 50, and the money grew by 10.
\<close>

theorem defeat_exactly_once_witness:
  "(let s = playing\<lparr>enemies := [enemyAt 0 200 120 10 10, enemyAt 1 210 120 100 20],
                     projectiles := [projectileAt ''basic'' 0 200 120 10 None,
                                     projectileAt ''bomber'' 1 210 120 50 (Some (60, 1/2))]\<rparr>
    in distinct (map e_id (enemies s)) \<and> alive (enemies s) \<and>
       map (\<lambda>e. (e_id e, e_health e)) (enemies (updateProjectiles s)) = [(1, 50)] \<and>
       money (updateProjectiles s) = money s + 10 \<and>
       alive (enemies (updateProjectiles s)))"
proof -
  define s where "s = playing\<lparr>enemies := [enemyAt 0 200 120 10 10, enemyAt 1 210 120 100 20],
                     projectiles := [projectileAt ''basic'' 0 200 120 10 None,
                                     projectileAt ''bomber'' 1 210 120 50 (Some (60, 1/2))]\<rparr>"
  have d: "distinct (map e_id (enemies s))" by (simp add: s_def fixture_defs)
  have a: "alive (enemies s)" by (simp add: s_def fixture_defs alive_def)
  have en: "enemies s = [enemyAt 0 200 120 10 10, enemyAt 1 210 120 100 20]" by (simp add: s_def)
  have ev: "map (\<lambda>e. (e_id e, e_health e)) (enemies (updateProjectiles s)) = [(1, 50)]"
    by (simp add: s_def fixture_defs projectile_defs)
  have "e_id ` set (enemies (updateProjectiles s)) =
      fst ` set (map (\<lambda>e. (e_id e, e_health e)) (enemies (updateProjectiles s)))"
    by (simp add: image_image)
  then have ids: "e_id ` set (enemies (updateProjectiles s)) = {1}"
    unfolding ev by simp
  from defeat_exactly_once[OF d] a have
    m: "money (updateProjectiles s) = money s +
           sum_list (map e_reward
             (filter (\<lambda>e. e_id e \<notin> e_id ` set (enemies (updateProjectiles s))) (enemies s)))"
    and al: "alive (enemies (updateProjectiles s))"
    by blast+
  have "money (updateProjectiles s) = money s + 10"
    unfolding m ids en by (simp add: enemyAt_def)
  with d a ev al show ?thesis unfolding Let_def s_def[symmetric] by simp
qed



section \<open>Splash damage\<close>







section \<open>Enemy movement and breach\<close>

lemma length_path [simp]: "length path = 8"
  by (simp add: path_def)

lemma advance_id: "advance e0 = Advanced e \<Longrightarrow> e_id e = e_id e0"
  by (auto simp: advance_def Let_def split: if_splits)

lemma advance_index:
  "advance e0 = Advanced e \<Longrightarrow> Suc (e_pathIndex e0) < length path \<Longrightarrow>
   Suc (e_pathIndex e) < length path"
  by (auto simp: advance_def Let_def split: if_splits)

lemma advance_on_path: "Suc (e_pathIndex e) < length path \<Longrightarrow> advance e \<noteq> OffPath"
  by (auto simp: advance_def Let_def)



lemma enemyLoop_result:
  assumes "n \<le> length (enemies s)"
    and "\<forall>e\<in>set (enemies s). Suc (e_pathIndex e) < length path"
  shows "\<exists>s'. enemyLoop n s = Some s' \<and> money s' = money s \<and> towers s' = towers s \<and>
           projectiles s' = projectiles s \<and>
           ((\<forall>i<n. advance (enemies s ! i) \<noteq> Breached) \<and> lives s' = lives s \<and>
              isPlaying s' = isPlaying s \<and> map e_id (enemies s') = map e_id (enemies s)
            \<or> (\<exists>i<n. advance (enemies s ! i) = Breached \<and> lives s' = lives s - 1 \<and>
                  \<not> isPlaying s' \<and>
                  map e_id (enemies s') =
                    take i (map e_id (enemies s)) @ drop (Suc i) (map e_id (enemies s))))"
  using assms
proof (induction n arbitrary: s)
  case 0
  then show ?case by simp
next
  case (Suc n)
  let ?e0 = "enemies s ! n"
  have n: "n < length (enemies s)" using Suc.prems(1) by simp
  then have e0: "?e0 \<in> set (enemies s)" by simp
  then have on: "Suc (e_pathIndex ?e0) < length path" using Suc.prems(2) by blast
  show ?case
  proof (cases "advance ?e0")
    case OffPath
    with advance_on_path[OF on] show ?thesis by simp
  next
    case Breached
    then show ?thesis
      by (auto simp: gameOver_def take_map drop_map)
  next
    case (Advanced e)
    let ?s2 = "s\<lparr>enemies := (enemies s)[n := e]\<rparr>"
    have len: "n \<le> length (enemies ?s2)" using n by simp
    have idx: "\<forall>x\<in>set (enemies ?s2). Suc (e_pathIndex x) < length path"
    proof
      fix x assume "x \<in> set (enemies ?s2)"
      then have "x = e \<or> x \<in> set (enemies s)"
        using set_update_subset_insert[of "enemies s" n e] by auto
      then show "Suc (e_pathIndex x) < length path"
        using advance_index[OF Advanced on] Suc.prems(2) by blast
    qed
    have ids: "map e_id (enemies ?s2) = map e_id (enemies s)"
      using advance_id[OF Advanced] n by (simp add: map_update list_update_same_conv)
    have same: "enemies ?s2 ! i = enemies s ! i" if "i < n" for i
      using that by simp
    from Suc.IH[OF len idx] obtain s' where s': "enemyLoop n ?s2 = Some s'"
      "money s' = money s" "towers s' = towers s" "projectiles s' = projectiles s"
      "(\<forall>i<n. advance (enemies ?s2 ! i) \<noteq> Breached) \<and> lives s' = lives s \<and>
          isPlaying s' = isPlaying s \<and> map e_id (enemies s') = map e_id (enemies ?s2)
        \<or> (\<exists>i<n. advance (enemies ?s2 ! i) = Breached \<and> lives s' = lives s - 1 \<and>
              \<not> isPlaying s' \<and>
              map e_id (enemies s') =
                take i (map e_id (enemies ?s2)) @ drop (Suc i) (map e_id (enemies ?s2)))"
      by auto
    have run: "enemyLoop (Suc n) s = Some s'" using Advanced s'(1) by simp
    from s'(5) show ?thesis
    proof
      assume a: "(\<forall>i<n. advance (enemies ?s2 ! i) \<noteq> Breached) \<and> lives s' = lives s \<and>
          isPlaying s' = isPlaying s \<and> map e_id (enemies s') = map e_id (enemies ?s2)"
      have "\<forall>i<Suc n. advance (enemies s ! i) \<noteq> Breached"
      proof (intro allI impI)
        fix i assume "i < Suc n"
        then consider "i < n" | "i = n" by linarith
        then show "advance (enemies s ! i) \<noteq> Breached"
        proof cases
          case 1
          with a same show ?thesis by simp
        next
          case 2
          with Advanced show ?thesis by simp
        qed
      qed
      with a ids run s'(2,3,4) show ?thesis by simp
    next
      assume "\<exists>i<n. advance (enemies ?s2 ! i) = Breached \<and> lives s' = lives s - 1 \<and>
              \<not> isPlaying s' \<and>
              map e_id (enemies s') =
                take i (map e_id (enemies ?s2)) @ drop (Suc i) (map e_id (enemies ?s2))"
      then obtain i where i: "i < n" "advance (enemies ?s2 ! i) = Breached"
        "lives s' = lives s - 1" "\<not> isPlaying s'"
        "map e_id (enemies s') =
           take i (map e_id (enemies ?s2)) @ drop (Suc i) (map e_id (enemies ?s2))"
        by blast
      have "i < Suc n" using i(1) by simp
      moreover have "advance (enemies s ! i) = Breached" using i(1,2) same by simp
      moreover have "map e_id (enemies s') =
          take i (map e_id (enemies s)) @ drop (Suc i) (map e_id (enemies s))"
        using i(5) ids by simp
      ultimately show ?thesis using run s'(2,3,4) i(3,4) by blast
    qed
  qed
qed

section \<open>What the tower and projectile passes leave alone\<close>






lemma checkWaveCompletion_fields:
  "enemies (checkWaveCompletion s) = enemies s" "money (checkWaveCompletion s) = money s"
  "lives (checkWaveCompletion s) = lives s" "isPlaying (checkWaveCompletion s) = isPlaying s"
  "towers (checkWaveCompletion s) = towers s" "projectiles (checkWaveCompletion s) = projectiles s"
  by (simp_all add: checkWaveCompletion_def Let_def)





lemmas enemy_defs = updateEnemies_def advance_def gameOver_def path_def checkWaveCompletion_def
  completionDue_def

lemma breachSession_enemy_pass:
  "updateEnemies (checkWaveCompletion breachSession) =
     Some (breachSession\<lparr>lives := 0, isPlaying := False,
        enemies := [(enemyAt 1 720 400 40 10)\<lparr>e_pathIndex := 6, e_progress := 120,
                      e_pulseEffect := 1/10\<rparr>]\<rparr>)"
  by (simp add: breachSession_def fixture_defs tower_defs enemy_defs Let_def)



lemma atan2_up: "0 < y \<Longrightarrow> atan2 y 0 = pi / 2"
  by (simp add: atan2_def)

lemma breachSession_update:
  "update 5000 rolls breachSession =
     Some (breachSession\<lparr>lives := 0, isPlaying := False,
        towers := [(new_tower 720 320 Basic)\<lparr>t_angle := pi / 2, t_lastShot := 5000,
                      t_target := Some 1\<rparr>],
        enemies := [(enemyAt 1 720 400 40 10)\<lparr>e_pathIndex := 6, e_progress := 120,
                      e_pulseEffect := 1/10\<rparr>],
        projectiles := [(projectileAt ''basic'' 1 720 400 10 None)\<lparr>p_y := 20123 / 60,
                          p_trailCounter := 1\<rparr>]\<rparr>)"
proof -
  have "updateProjectiles (updateTowers 5000 rolls
          (breachSession\<lparr>lives := 0, isPlaying := False,
             enemies := [(enemyAt 1 720 400 40 10)\<lparr>e_pathIndex := 6, e_progress := 120,
                           e_pulseEffect := 1/10\<rparr>]\<rparr>)) =
        breachSession\<lparr>lives := 0, isPlaying := False,
          towers := [(new_tower 720 320 Basic)\<lparr>t_angle := pi / 2, t_lastShot := 5000,
                        t_target := Some 1\<rparr>],
          enemies := [(enemyAt 1 720 400 40 10)\<lparr>e_pathIndex := 6, e_progress := 120,
                        e_pulseEffect := 1/10\<rparr>],
          projectiles := [(projectileAt ''basic'' 1 720 400 10 None)\<lparr>p_y := 20123 / 60,
                            p_trailCounter := 1\<rparr>]\<rparr>"
    by (simp add: breachSession_def fixture_defs tower_defs step_defs atan2_up projectile_defs)
  then show ?thesis
    by (simp add: update_def breachSession_enemy_pass)
qed





section \<open>The passes of a frame leave the phase alone\<close>

lemma towerStep_phase: "phase (towerStep now roll i s) = phase s"
  by (simp add: phase_def towerStep_def Let_def defeatEnemy_def createBomberProjectile_def
      createStandardProjectile_def split: option.splits prod.splits)

lemma updateTowers_phase: "phase (updateTowers now roll s) = phase s"
proof -
  have "phase (fold (towerStep now roll) js s) = phase s" for js
    by (induction js arbitrary: s) (simp_all add: towerStep_phase)
  then show ?thesis by (simp add: updateTowers_def)
qed

lemma strike_phase: "phase (strike e d s) = phase s"
  by (simp add: phase_def strike_def Let_def defeatEnemy_def)

lemma splashLoop_phase: "phase (fold (splashStep p t) es s) = phase s"
  by (induction es arbitrary: s) (simp_all add: splashStep_strike strike_phase)

lemma bomberImpact_phase: "phase (bomberImpact p t s) = phase s"
proof -
  have "phase (s\<lparr>enemies := es\<rparr>) = phase s" for es by (simp add: phase_def)
  moreover have "phase (defeatEnemy t s') = phase s'" for s' by (simp add: phase_def defeatEnemy_def)
  ultimately show ?thesis by (simp add: bomberImpact_def Let_def splashLoop_phase)
qed

lemma projectileStep_phase: "phase (projectileStep i s) = phase s"
proof -
  have "phase (s'\<lparr>projectiles := ps\<rparr>) = phase s'" for s' ps by (simp add: phase_def)
  then show ?thesis
    by (simp add: projectileStep_def Let_def standardImpact_strike strike_phase bomberImpact_phase
        split: option.splits)
qed

lemma updateProjectiles_phase: "phase (updateProjectiles s) = phase s"
proof -
  have "phase (projectileLoop n s) = phase s" for n
    by (induction n arbitrary: s) (simp_all add: projectileStep_phase)
  then show ?thesis by (simp add: updateProjectiles_def)
qed

lemma enemyLoop_phase: "enemyLoop n s = Some s' \<Longrightarrow> phase s' = phase s"
proof (induction n arbitrary: s)
  case 0
  then show ?case by simp
next
  case (Suc n)
  show ?case
  proof (cases "advance (enemies s ! n)")
    case (Advanced e)
    with Suc.prems have "enemyLoop n (s\<lparr>enemies := (enemies s)[n := e]\<rparr>) = Some s'" by simp
    from Suc.IH[OF this] show ?thesis by (simp add: phase_def)
  next
    case Breached
    with Suc.prems show ?thesis by (auto simp: phase_def gameOver_def)
  next
    case OffPath
    with Suc.prems show ?thesis by simp
  qed
qed

lemma update_phase: "update now roll s = Some s' \<Longrightarrow> phase s' = phase (checkWaveCompletion s)"
  by (auto simp: update_def updateEnemies_def updateProjectiles_phase updateTowers_phase
      split: option.splits dest: enemyLoop_phase)

lemma phase_flags:
  "phase s' = phase s \<Longrightarrow> preparationPhase s' = preparationPhase s \<and> waveStarted s' = waveStarted s"
  by (simp add: phase_def)

section \<open>Wave completion\<close>

lemma prepared_not_started: "reachable s \<Longrightarrow> preparationPhase s \<longrightarrow> \<not> waveStarted s"
proof (induction rule: reachable.induct)
  case init
  then show ?case by (simp add: initialState_def)
next
  case (step s e s')
  have frame: "preparationPhase s' \<longrightarrow> \<not> waveStarted s'" if "gameLoop now roll s = Some s'" for now roll
  proof (cases "gameScreen s = Game \<and> isPlaying s")
    case True
    with that have "update now roll s = Some s'" by (simp add: gameLoop_def)
    from phase_flags[OF update_phase[OF this]] step.IH show ?thesis
      by (simp add: checkWaveCompletion_def Let_def split: if_splits)
  next
    case False
    with that step.IH show ?thesis by (auto simp: gameLoop_def)
  qed
  from step.hyps(2) step.IH frame show ?case
    by (cases e)
       (auto simp: startGame_def restartClick_def resetGame_def selectTower_def Let_def
          handleCanvasClick_def placeTower_def prepTick_def startWave_def
          calculateWaveDifficulty_def spawnTick_def spawnEnemy_def bonusTimeout_def
          countdownTick_def split: if_splits option.splits)
qed



section \<open>The completion check\<close>

lemma checkWaveCompletion_fires:
  "checkWaveCompletion s \<noteq> s \<longleftrightarrow>
     \<not> waveCompleted s \<and> enemies s = [] \<and> enemySpawnInterval s = None \<and> waveStarted s"
proof -
  have "s\<lparr>waveCompleted := True, bonusTimeouts := b, countdownIntervals := c\<rparr> \<noteq> s"
    if "\<not> waveCompleted s" for b c
  proof
    assume "s\<lparr>waveCompleted := True, bonusTimeouts := b, countdownIntervals := c\<rparr> = s"
    then have "waveCompleted (s\<lparr>waveCompleted := True, bonusTimeouts := b, countdownIntervals := c\<rparr>)
        = waveCompleted s" by simp
    with that show False by simp
  qed
  then show ?thesis
    by (auto simp: checkWaveCompletion_def completionDue_def Let_def)
qed

text \<open>
  C6. The completion check changes the session exactly when the completed flag is clear,
  no enemy is live, no spawn interval is registered and the wave-started flag is set; it
  then sets the completed flag and registers the bonus timeout and the 8-second countdown,
  so that it does not fire a second time for the wave. In every session the program can
  reach, the wave-started flag is clear throughout the preparation phase, so the check
  does nothing there, whatever the enemy list and the spawn interval read.
\<close>

theorem wave_completion_guard:
  "(checkWaveCompletion s \<noteq> s \<longleftrightarrow>
      \<not> waveCompleted s \<and> enemies s = [] \<and> enemySpawnInterval s = None \<and> waveStarted s) \<and>
   (checkWaveCompletion s \<noteq> s \<longrightarrow>
      checkWaveCompletion s =
        s\<lparr>waveCompleted := True, bonusTimeouts := bonusTimeouts s @ [20 + wave s * 5],
          countdownIntervals := countdownIntervals s @ [8]\<rparr>) \<and>
   checkWaveCompletion (checkWaveCompletion s) = checkWaveCompletion s \<and>
   (reachable s \<and> preparationPhase s \<longrightarrow> \<not> waveStarted s \<and> checkWaveCompletion s = s)"
proof (intro conjI impI)
  show "checkWaveCompletion s \<noteq> s \<longleftrightarrow>
      \<not> waveCompleted s \<and> enemies s = [] \<and> enemySpawnInterval s = None \<and> waveStarted s"
    by (rule checkWaveCompletion_fires)
  show "checkWaveCompletion s =
        s\<lparr>waveCompleted := True, bonusTimeouts := bonusTimeouts s @ [20 + wave s * 5],
          countdownIntervals := countdownIntervals s @ [8]\<rparr>"
    if "checkWaveCompletion s \<noteq> s"
    using that by (auto simp: checkWaveCompletion_def Let_def)
  show "checkWaveCompletion (checkWaveCompletion s) = checkWaveCompletion s"
    by (simp add: checkWaveCompletion_def completionDue_def Let_def)
  show "\<not> waveStarted s" if "reachable s \<and> preparationPhase s"
    using that prepared_not_started by blast
  then show "checkWaveCompletion s = s" if "reachable s \<and> preparationPhase s"
    using that by (simp add: checkWaveCompletion_def completionDue_def)
qed

text \<open>
  The theorem at the session right after the start button, in its preparation phase with
  no enemy and no spawn interval, and at a session whose first wave has been cleared.
\<close>

theorem wave_completion_guard_witness:
  "reachable (startGame initialState) \<and> preparationPhase (startGame initialState) \<and>
   enemies (startGame initialState) = [] \<and> enemySpawnInterval (startGame initialState) = None \<and>
   \<not> waveCompleted (startGame initialState) \<and> \<not> waveStarted (startGame initialState) \<and>
   checkWaveCompletion (startGame initialState) = startGame initialState \<and>
   \<not> waveCompleted playing \<and> enemies playing = [] \<and> enemySpawnInterval playing = None \<and>
   waveStarted playing \<and> checkWaveCompletion playing \<noteq> playing \<and>
   checkWaveCompletion playing =
     playing\<lparr>waveCompleted := True, bonusTimeouts := [25], countdownIntervals := [8]\<rparr>"
proof -
  have "fire StartClick initialState = Some (startGame initialState)" by simp
  with reachable.init have r: "reachable (startGame initialState)" by (rule reachable.step)
  have p: "preparationPhase (startGame initialState)" by (simp add: startGame_def)
  have a: "enemies (startGame initialState) = []" "enemySpawnInterval (startGame initialState) = None"
    "\<not> waveCompleted (startGame initialState)"
    by (simp_all add: startGame_def initialState_def)
  have b: "\<not> waveCompleted playing \<and> enemies playing = [] \<and> enemySpawnInterval playing = None \<and>
      waveStarted playing"
    by (simp add: fixture_defs)
  note T1 = wave_completion_guard[of "startGame initialState"]
  note T2 = wave_completion_guard[of playing]
  from T1 r p have c: "\<not> waveStarted (startGame initialState)"
    "checkWaveCompletion (startGame initialState) = startGame initialState" by blast+
  from T2 b have d: "checkWaveCompletion playing \<noteq> playing" by blast
  with T2 have "checkWaveCompletion playing =
      playing\<lparr>waveCompleted := True, bonusTimeouts := bonusTimeouts playing @ [20 + wave playing * 5],
          countdownIntervals := countdownIntervals playing @ [8]\<rparr>" by blast
  then have e: "checkWaveCompletion playing =
     playing\<lparr>waveCompleted := True, bonusTimeouts := [25], countdownIntervals := [8]\<rparr>"
    by (simp add: fixture_defs)
  from r p a b c d e show ?thesis by simp
qed

section \<open>Timers across a reset\<close>

lemmas timer_defs = restartClick_def resetGame_def bonusTimeout_def countdownTick_def
  startWave_def calculateWaveDifficulty_def spawnTick_def spawnEnemy_def
  selectEnemyTypeForWave_def startGame_def prepTick_def checkWaveCompletion_def
  completionDue_def gameOver_def preparationTime_def Let_def

text \<open>
  C7. Resetting or ending the game should cancel every pending timer. \<open>resetGame\<close> clears
  the spawn interval only: when the first wave has just been cleared and the restart button
  is clicked, the bonus timeout and the countdown interval stay pending; the bonus then
  raises the money of the reset session from 75 to 100, the countdown raises its wave
  counter to 2 and starts a spawn interval, which puts an enemy into the reset session.
  A preparation interval survives a restart as well, and \<open>gameOver\<close> clears no timer:
  after the frame that ends \<open>breachSession\<close> the spawn interval adds an enemy.
\<close>

theorem reset_leaves_timers_pending:
  "bonusTimeouts (restartClick (checkWaveCompletion playing)) = [25] \<and>
   countdownIntervals (restartClick (checkWaveCompletion playing)) = [8] \<and>
   money (restartClick (checkWaveCompletion playing)) = 75 \<and>
   map_option money (run [RestartClick, BonusTimeout 0] (checkWaveCompletion playing)) = Some 100 \<and>
   map_option wave
     (run [RestartClick, CountdownTick 0, CountdownTick 0, CountdownTick 0, CountdownTick 0,
           CountdownTick 0, CountdownTick 0, CountdownTick 0, CountdownTick 0]
        (checkWaveCompletion playing)) = Some 2 \<and>
   map_option (map e_id \<circ> enemies)
     (run [RestartClick, CountdownTick 0, CountdownTick 0, CountdownTick 0, CountdownTick 0,
           CountdownTick 0, CountdownTick 0, CountdownTick 0, CountdownTick 0, SpawnTick 0]
        (checkWaveCompletion playing)) = Some [0] \<and>
   prepIntervals (restartClick (startGame initialState)) = 1 \<and>
   map_option (map e_id \<circ> enemies)
     (run [StartClick, RestartClick, PrepTick, PrepTick, PrepTick, PrepTick, PrepTick, SpawnTick 0]
        initialState) = Some [0] \<and>
   phase (gameOver breachSession) = phase breachSession \<and>
   enemySpawnInterval (gameOver breachSession) =
     Some \<lparr>enemiesSpawned = 6, enemyCount = 8, spawnInterval = 1200\<rparr> \<and>
   map_option isPlaying (run [Frame 5000 rolls] breachSession) = Some False \<and>
   map_option (length \<circ> enemies) (run [Frame 5000 rolls] breachSession) = Some 1 \<and>
   map_option (length \<circ> enemies) (run [Frame 5000 rolls, SpawnTick 0] breachSession) = Some 2"
proof -
  have "gameLoop 5000 rolls breachSession = update 5000 rolls breachSession"
    by (simp add: gameLoop_def breachSession_def fixture_defs)
  then have frame: "fire (Frame 5000 rolls) breachSession =
      Some (breachSession\<lparr>lives := 0, isPlaying := False,
        towers := [(new_tower 720 320 Basic)\<lparr>t_angle := pi / 2, t_lastShot := 5000,
                      t_target := Some 1\<rparr>],
        enemies := [(enemyAt 1 720 400 40 10)\<lparr>e_pathIndex := 6, e_progress := 120,
                      e_pulseEffect := 1/10\<rparr>],
        projectiles := [(projectileAt ''basic'' 1 720 400 10 None)\<lparr>p_y := 20123 / 60,
                          p_trailCounter := 1\<rparr>]\<rparr>)"
    by (simp only: fire.simps breachSession_update)
  have "map_option isPlaying (run [Frame 5000 rolls] breachSession) = Some False \<and>
      map_option (length \<circ> enemies) (run [Frame 5000 rolls] breachSession) = Some 1 \<and>
      map_option (length \<circ> enemies) (run [Frame 5000 rolls, SpawnTick 0] breachSession) = Some 2"
    unfolding run.simps frame
    by (simp add: breachSession_def fixture_defs spawnTick_def spawnEnemy_def
        selectEnemyTypeForWave_def)
  then show ?thesis
    by (simp add: fixture_defs timer_defs phase_def breachSession_def)
qed


section \<open>Placement\<close>














section \<open>Concrete placement requests\<close>










section \<open>Sessions the program reaches\<close>

lemma scanEnemies_member:
  "scanEnemies t es (None, d) = (Some e, d') \<Longrightarrow> e \<in> set es"
proof (cases "\<exists>x\<in>set es. enemyDistance t x < d")
  case True
  assume a: "scanEnemies t es (None, d) = (Some e, d')"
  from scanEnemies_some[OF True, of None] obtain k where "k < length es"
    "scanEnemies t es (None, d) = (Some (es ! k), enemyDistance t (es ! k))" by blast
  with a show ?thesis by auto
next
  case False
  assume a: "scanEnemies t es (None, d) = (Some e, d')"
  from False have "\<forall>x\<in>set es. d \<le> enemyDistance t x" by auto
  from scanEnemies_none[OF this, of None] a show ?thesis by simp
qed

lemma settled_fields:
  "enemies s' = enemies s \<Longrightarrow> money s' = money s \<Longrightarrow>
   distinct (map e_id (enemies s)) \<Longrightarrow> settled s s'"
  by (simp add: settled_def survivors_refl ledger_def)

lemma settled_frame: "settled s s' \<Longrightarrow> set (map frame (enemies s')) \<subseteq> set (map frame (enemies s))"
proof -
  assume "settled s s'"
  then have "map frame (enemies s') =
      filter (\<lambda>f. e_id f \<in> e_id ` set (enemies s')) (map frame (enemies s))"
    by (simp add: settled_def survivors_def)
  then have "set (map frame (enemies s')) =
      set (filter (\<lambda>f. e_id f \<in> e_id ` set (enemies s')) (map frame (enemies s)))"
    by simp
  also have "\<dots> \<subseteq> set (map frame (enemies s))" by (rule filter_is_subset)
  finally show ?thesis .
qed

lemma towerStep_settled:
  assumes "distinct (map e_id (enemies s))"
  shows "settled s (towerStep now roll i s)"
proof -
  have same: "settled s (s\<lparr>towers := ts\<rparr>)" for ts
    using assms by (simp add: settled_fields)
  have shot: "settled s (createStandardProjectile t e (s\<lparr>towers := ts\<rparr>))"
    "settled s (createBomberProjectile t e (s\<lparr>towers := ts\<rparr>))" for t e ts
    using assms by (simp_all add: settled_fields createStandardProjectile_def
        createBomberProjectile_def Let_def)
  have hit: "settled s (strike e d (s\<lparr>towers := ts\<rparr>))" if "e \<in> set (enemies s)" for e d ts
  proof -
    have "lookupEnemy (e_id e) (enemies (s\<lparr>towers := ts\<rparr>)) = Some e"
      using assms that by (simp add: lookupEnemy_member)
    then have "settled (s\<lparr>towers := ts\<rparr>) (strike e d (s\<lparr>towers := ts\<rparr>))"
      using assms by (intro strike_settled) simp_all
    with same[of ts] show ?thesis by (rule settled_trans)
  qed
  show ?thesis
  proof (cases "onCooldown now (towers s ! i)")
    case True
    then show ?thesis using assms by (simp add: towerStep_def settled_refl)
  next
    case False
    show ?thesis
    proof (cases "scanEnemies (towers s ! i) (enemies s) (None, t_range (towers s ! i))")
      case (Pair c d)
      show ?thesis
      proof (cases c)
        case None
        with Pair False show ?thesis using assms by (simp add: towerStep_def Let_def settled_refl)
      next
        case (Some e)
        with Pair have "e \<in> set (enemies s)" by (auto dest: scanEnemies_member)
        from hit[OF this] shot Pair Some False show ?thesis
          by (simp add: towerStep_def Let_def strike_def)
      qed
    qed
  qed
qed

lemma updateTowers_settled:
  "distinct (map e_id (enemies s)) \<Longrightarrow> settled s (updateTowers now roll s)"
proof -
  have "distinct (map e_id (enemies s)) \<Longrightarrow> settled s (fold (towerStep now roll) js s)" for js
  proof (induction js arbitrary: s)
    case Nil
    then show ?case by (simp add: settled_refl)
  next
    case (Cons j js)
    from towerStep_settled[OF Cons.prems, of now roll j]
    have 1: "settled s (towerStep now roll j s)" .
    then have "distinct (map e_id (enemies (towerStep now roll j s)))" by (simp add: settled_def)
    from Cons.IH[OF this] 1 show ?case by (auto intro: settled_trans)
  qed
  then show "distinct (map e_id (enemies s)) \<Longrightarrow> settled s (updateTowers now roll s)"
    by (simp add: updateTowers_def)
qed

lemma settled_wellformed:
  assumes "settled s s'" and "wellformed s" and "nextId s' = nextId s"
  shows "wellformed s'"
proof -
  have "e_id e < nextId s' \<and> Suc (e_pathIndex e) < length path" if "e \<in> set (enemies s')" for e
  proof -
    from that have "frame e \<in> set (map frame (enemies s'))" by simp
    with settled_frame[OF assms(1)] obtain e0 where e0: "e0 \<in> set (enemies s)" "frame e = frame e0"
      by auto
    from e0(2) have "e_id e = e_id e0" "e_pathIndex e = e_pathIndex e0"
      by (metis frame_simps(1), metis frame_simps(5))
    with e0(1) assms(2,3) show ?thesis by (auto simp: wellformed_def list_all_iff)
  qed
  with assms(1) show ?thesis by (simp add: wellformed_def settled_def list_all_iff)
qed



lemma phase_nextId: "phase s' = phase s \<Longrightarrow> nextId s' = nextId s"
  by (simp add: phase_def)

lemma wellformed_fields:
  "enemies s' = enemies s \<Longrightarrow> nextId s' = nextId s \<Longrightarrow> wellformed s \<Longrightarrow> wellformed s'"
  by (simp add: wellformed_def)

lemma enemyLoop_wellformed:
  "enemyLoop n s = Some s' \<Longrightarrow> n \<le> length (enemies s) \<Longrightarrow> wellformed s \<Longrightarrow> wellformed s'"
proof (induction n arbitrary: s)
  case 0
  then show ?case by simp
next
  case (Suc n)
  let ?es = "enemies s"
  have n: "n < length ?es" using Suc.prems(2) by simp
  have d: "distinct (map e_id ?es)"
    and all: "\<forall>e\<in>set ?es. e_id e < nextId s \<and> Suc (e_pathIndex e) < length path"
    using Suc.prems(3) by (simp_all add: wellformed_def list_all_iff)
  show ?case
  proof (cases "advance (?es ! n)")
    case OffPath
    with Suc.prems(1) show ?thesis by simp
  next
    case Breached
    with Suc.prems(1) have s': "s' = gameOver (s\<lparr>lives := lives s - 1,
        enemies := take n ?es @ drop (Suc n) ?es\<rparr>)" by simp
    have "set (take n (map e_id ?es)) \<inter> set (drop (Suc n) (map e_id ?es)) = {}"
      using d by (intro set_take_disj_set_drop_if_distinct) simp_all
    then have "distinct (take n (map e_id ?es) @ drop (Suc n) (map e_id ?es))"
      using d by simp
    then have "distinct (map e_id (take n ?es @ drop (Suc n) ?es))"
      by (simp add: take_map drop_map)
    moreover have "\<forall>e\<in>set (take n ?es @ drop (Suc n) ?es).
        e_id e < nextId s \<and> Suc (e_pathIndex e) < length path"
      using all by (auto dest: in_set_takeD in_set_dropD)
    ultimately show ?thesis
      unfolding s' by (simp add: wellformed_def gameOver_def list_all_iff)
  next
    case (Advanced e)
    let ?s2 = "s\<lparr>enemies := ?es[n := e]\<rparr>"
    have run: "enemyLoop n ?s2 = Some s'" using Suc.prems(1) Advanced by simp
    have e0: "?es ! n \<in> set ?es" using n by simp
    have ids: "map e_id (enemies ?s2) = map e_id ?es"
      using advance_id[OF Advanced] n by (simp add: map_update list_update_same_conv)
    have pe: "e_id e < nextId s \<and> Suc (e_pathIndex e) < length path"
      using advance_id[OF Advanced] advance_index[OF Advanced] all e0 by auto
    have "\<forall>x\<in>set (enemies ?s2). e_id x < nextId s \<and> Suc (e_pathIndex x) < length path"
    proof
      fix x assume "x \<in> set (enemies ?s2)"
      then have "x = e \<or> x \<in> set ?es"
        using set_update_subset_insert[of ?es n e] by auto
      with pe all show "e_id x < nextId s \<and> Suc (e_pathIndex x) < length path" by blast
    qed
    with ids d have "wellformed ?s2" by (simp add: wellformed_def list_all_iff)
    moreover have "n \<le> length (enemies ?s2)" using n by simp
    ultimately show ?thesis using Suc.IH[OF run] by blast
  qed
qed

lemma update_wellformed:
  assumes "update now roll s = Some s'" and "wellformed s"
  shows "wellformed s'"
proof -
  let ?c = "checkWaveCompletion s"
  from assms(1) obtain s1 where s1: "updateEnemies ?c = Some s1"
    and s': "s' = updateProjectiles (updateTowers now roll s1)"
    by (auto simp: update_def split: option.splits)
  have "nextId ?c = nextId s" by (simp add: checkWaveCompletion_def Let_def)
  then have wc: "wellformed ?c"
    using assms(2) by (simp add: wellformed_def checkWaveCompletion_fields)
  have w1: "wellformed s1"
  proof (rule enemyLoop_wellformed)
    show "enemyLoop (length (enemies ?c)) ?c = Some s1"
      using s1 by (simp add: updateEnemies_def)
    show "length (enemies ?c) \<le> length (enemies ?c)" by simp
    show "wellformed ?c" by fact
  qed
  let ?s2 = "updateTowers now roll s1"
  have d1: "distinct (map e_id (enemies s1))" using w1 by (simp add: wellformed_def)
  have t: "settled s1 ?s2" using d1 by (rule updateTowers_settled)
  have w2: "wellformed ?s2"
    using t w1 by (rule settled_wellformed) (rule phase_nextId[OF updateTowers_phase])
  have d2: "distinct (map e_id (enemies ?s2))" using w2 by (simp add: wellformed_def)
  have "settled ?s2 (updateProjectiles ?s2)"
    using projectileLoop_settled[OF d2] by (simp add: updateProjectiles_def)
  then show ?thesis
    unfolding s' using w2 by (rule settled_wellformed) (rule phase_nextId[OF updateProjectiles_phase])
qed

lemma spawnEnemy_wellformed: "wellformed s \<Longrightarrow> wellformed (spawnEnemy k s)"
  by (auto simp: wellformed_def spawnEnemy_def Let_def list_all_iff path_def)

lemma handlers_keep_enemies:
  "enemies (startGame s) = enemies s \<and> nextId (startGame s) = nextId s"
  "enemies (selectTower k s) = enemies s \<and> nextId (selectTower k s) = nextId s"
  "enemies (handleCanvasClick x y s) = enemies s \<and> nextId (handleCanvasClick x y s) = nextId s"
  "enemies (startWave s) = enemies s \<and> nextId (startWave s) = nextId s"
  "enemies (bonusTimeout i s) = enemies s \<and> nextId (bonusTimeout i s) = nextId s"
  by (simp_all add: startGame_def selectTower_def Let_def handleCanvasClick_def placeTower_def
      startWave_def calculateWaveDifficulty_def bonusTimeout_def split: option.splits)

lemma timers_keep_enemies:
  "enemies (prepTick s) = enemies s \<and> nextId (prepTick s) = nextId s"
  "enemies (countdownTick i s) = enemies s \<and> nextId (countdownTick i s) = nextId s"
  by (simp_all add: prepTick_def countdownTick_def Let_def handlers_keep_enemies)

lemma reachable_wellformed: "reachable s \<Longrightarrow> wellformed s"
proof (induction rule: reachable.induct)
  case init
  then show ?case by (simp add: wellformed_def initialState_def)
next
  case (step s e s')
  note keep = wellformed_fields[OF _ _ step.IH]
  show ?case
  proof (cases e)
    case (Frame now roll)
    with step.hyps(2) have "gameLoop now roll s = Some s'" by simp
    then show ?thesis
      using step.IH update_wellformed by (auto simp: gameLoop_def split: if_splits)
  next
    case (SpawnTick rand)
    with step.hyps(2) have s': "s' = spawnTick rand s" by (simp split: if_splits)
    show ?thesis
    proof (cases "enemySpawnInterval s")
      case None
      with s' step.IH show ?thesis by (simp add: spawnTick_def)
    next
      case (Some t)
      have "wellformed ((spawnEnemy k s)\<lparr>enemySpawnInterval := x\<rparr>)" for k x
        using spawnEnemy_wellformed[OF step.IH, of k] by (simp add: wellformed_def)
      moreover have "wellformed (s\<lparr>enemySpawnInterval := None\<rparr>)"
        using step.IH by (simp add: wellformed_def)
      ultimately show ?thesis using s' Some by (simp add: spawnTick_def)
    qed
  next
    case StartClick
    with step.hyps(2) show ?thesis by (auto intro!: keep simp: handlers_keep_enemies)
  next
    case RestartClick
    with step.hyps(2) show ?thesis
      by (auto simp: wellformed_def restartClick_def resetGame_def)
  next
    case (TowerClick k)
    with step.hyps(2) show ?thesis by (auto intro!: keep simp: handlers_keep_enemies)
  next
    case (CanvasClick x y)
    with step.hyps(2) show ?thesis by (auto intro!: keep simp: handlers_keep_enemies)
  next
    case PrepTick
    with step.hyps(2) show ?thesis
      by (auto intro!: keep simp: timers_keep_enemies split: if_splits)
  next
    case (BonusTimeout i)
    with step.hyps(2) show ?thesis
      by (auto intro!: keep simp: handlers_keep_enemies split: if_splits)
  next
    case (CountdownTick i)
    with step.hyps(2) show ?thesis
      by (auto intro!: keep simp: timers_keep_enemies split: if_splits)
  next
    case HowToPlayClick
    with step.hyps(2) show ?thesis by (auto intro!: keep)
  next
    case BackClick
    with step.hyps(2) show ?thesis by (auto intro!: keep)
  qed
qed

text \<open>
  In a session the program reaches no frame throws: \<open>updateEnemies\<close> always finds the
  next waypoint.
\<close>

lemma reachable_frame_total: "reachable s \<Longrightarrow> \<exists>s'. fire (Frame now roll) s = Some s'"
proof -
  assume "reachable s"
  then have "wellformed s" by (rule reachable_wellformed)
  then have idx: "\<forall>e\<in>set (enemies (checkWaveCompletion s)). Suc (e_pathIndex e) < length path"
    by (simp add: wellformed_def list_all_iff checkWaveCompletion_fields)
  have len: "length (enemies (checkWaveCompletion s)) \<le> length (enemies (checkWaveCompletion s))"
    by simp
  from enemyLoop_result[OF len idx] obtain s1 where
    "updateEnemies (checkWaveCompletion s) = Some s1"
    unfolding updateEnemies_def by blast
  then have "\<exists>s'. update now roll s = Some s'" by (simp add: update_def)
  then show ?thesis by (simp add: gameLoop_def)
qed

end
